theory Spec2Isabelle
  imports Complex_Main "HOL-Library.Multiset" "HOL-Library.Char_ord" "HOL-Library.List_Lexorder"
begin

section \<open>Reelify: highlight timeline extraction (app.py)\<close>

text \<open>
  Python strings are lists of characters; \<open>len\<close> is \<open>length\<close>. The window
  partition is polymorphic in the character type, so it holds for every alphabet.
  Integers are Python's unbounded \<open>int\<close>, modelled as \<open>int\<close>; \<open>//\<close> and
  \<open>divmod\<close> round towards minus infinity, as \<open>div\<close> and \<open>mod\<close> on \<open>int\<close> do.
\<close>

subsection \<open>Exceptions\<close>

text \<open>
  \<open>ServiceError\<close> is any exception raised inside the summarization pipeline call of
  line 49 (it carries the text of the exception). \<open>IndexError\<close> and \<open>KeyError\<close> are
  the two exceptions the subscripts \<open>summary[0]['summary_text']\<close> of line 50 can raise.
  \<open>ZeroDivisionError\<close> is the one the operator \<open>//\<close> of line 53 raises on a zero
  divisor, \<open>ValueError\<close> the one \<open>max\<close> raises on an empty dictionary (line 175)
  and \<open>FileExistsError\<close> the one \<open>os.makedirs\<close> raises when the path is a file
  (line 208).
\<close>

datatype exn =
    ServiceError string
  | IndexError
  | KeyError
  | ZeroDivisionError
  | ValueError
  | FileExistsError

subsection \<open>range and slices\<close>

text \<open>
  \<open>range(i, stop, step)\<close> for a positive step: \<open>i, i + step, ...\<close> while below
  \<open>stop\<close>. Python refuses a zero step; the source only uses the step 1000.
\<close>

function py_range :: "nat \<Rightarrow> nat \<Rightarrow> nat \<Rightarrow> nat list" where
  "py_range i stop step =
     (if step = 0 then []
      else if i < stop then i # py_range (i + step) stop step
      else [])"
  by pat_completeness auto
termination
  by (relation "measure (\<lambda>(i, stop, step). stop - i)") auto

declare py_range.simps [simp del]

text \<open>\<open>xs[a:b]\<close> for \<open>0 \<le> a \<le> b\<close>: Python clips both ends to the length.\<close>

definition slice :: "'a list \<Rightarrow> nat \<Rightarrow> nat \<Rightarrow> 'a list" where
  "slice xs a b = take (b - a) (drop a xs)"

text \<open>Line 45: \<open>[transcript[i:i+1000] for i in range(0, len(transcript), 1000)]\<close>.\<close>

definition transcript_chunks :: "'a list \<Rightarrow> 'a list list" where
  "transcript_chunks transcript =
     map (\<lambda>i. slice transcript i (i + 1000)) (py_range 0 (length transcript) 1000)"

subsection \<open>Formatting\<close>

definition digit_char :: "nat \<Rightarrow> char" where
  "digit_char d = ''0123456789'' ! d"

text \<open>The decimal digits of a natural number, most significant first.\<close>

function str_nat :: "nat \<Rightarrow> string" where
  "str_nat n = (if n < 10 then [digit_char n] else str_nat (n div 10) @ [digit_char (n mod 10)])"
  by pat_completeness auto
termination
  by (relation "measure (\<lambda>n. n)") auto

declare str_nat.simps [simp del]

text \<open>\<open>str(i)\<close>, which is what \<open>{i}\<close> in an f-string writes for an integer.\<close>

definition str_int :: "int \<Rightarrow> string" where
  "str_int i = (if i < 0 then CHR ''-'' # str_nat (nat (- i)) else str_nat (nat i))"

definition zero_pad :: "nat \<Rightarrow> string \<Rightarrow> string" where
  "zero_pad w s = replicate (w - length s) CHR ''0'' @ s"

text \<open>
  The format specification \<open>:02\<close> on an integer: minimum width 2, padded with zeros
  after the sign, so that \<open>-5\<close> is written \<open>-5\<close> and \<open>7\<close> is written \<open>07\<close>.
\<close>

definition format_02 :: "int \<Rightarrow> string" where
  "format_02 i =
     (if i < 0 then CHR ''-'' # zero_pad 1 (str_nat (nat (- i)))
      else zero_pad 2 (str_nat (nat i)))"

text \<open>Lines 39-42.\<close>

definition format_timestamp :: "int \<Rightarrow> string" where
  "format_timestamp seconds =
     (let m = seconds div 60; s = seconds mod 60;
          h = m div 60; m = m mod 60
      in format_02 h @ '':'' @ format_02 m @ '':'' @ format_02 s)"

text \<open>
  \<open>str.isspace\<close> on the code points below 256: the controls 9 to 13 and 28 to 31, the
  space, NEL (133) and the no-break space (160). \<open>str.strip()\<close> drops the characters
  of this class from both ends.
\<close>

definition py_isspace :: "char \<Rightarrow> bool" where
  "py_isspace c =
     (let n = (of_char c :: nat)
      in (9 \<le> n \<and> n \<le> 13) \<or> (28 \<le> n \<and> n \<le> 32) \<or> n = 133 \<or> n = 160)"

definition strip :: "string \<Rightarrow> string" where
  "strip s = rev (dropWhile py_isspace (rev (dropWhile py_isspace s)))"

subsection \<open>The summarization service\<close>

text \<open>
  The pipeline call returns a list of dictionaries, or raises. The service is opaque and
  may keep state, so its answer is a function of the inputs of the calls made before
  (oldest first) and of the input of this call; \<open>Inl\<close> is an exception with its text.
\<close>

type_synonym summary_output = "(string \<rightharpoonup> string) list"
type_synonym summarizer = "string list \<Rightarrow> string \<Rightarrow> string + summary_output"

text \<open>
  Lines 48-50: the loop over the windows. \<open>highlights\<close> is the list being appended to,
  \<open>calls\<close> the inputs of the service calls made so far. The first exception ends the
  loop, and the function.
\<close>

fun summarize_chunks ::
  "summarizer \<Rightarrow> string list \<Rightarrow> string list \<Rightarrow> string list \<Rightarrow> (exn + string list) \<times> string list"
where
  "summarize_chunks svc [] highlights calls = (Inr highlights, calls)"
| "summarize_chunks svc (chunk # rest) highlights calls =
     (case svc calls chunk of
        Inl msg \<Rightarrow> (Inl (ServiceError msg), calls @ [chunk])
      | Inr summary \<Rightarrow>
          (case summary of
             [] \<Rightarrow> (Inl IndexError, calls @ [chunk])
           | d # _ \<Rightarrow>
               (case d ''summary_text'' of
                  None \<Rightarrow> (Inl KeyError, calls @ [chunk])
                | Some text \<Rightarrow> summarize_chunks svc rest (highlights @ [text]) (calls @ [chunk]))))"

subsection \<open>The timeline\<close>

definition py_floordiv :: "int \<Rightarrow> int \<Rightarrow> exn + int" where
  "py_floordiv a b = (if b = 0 then Inl ZeroDivisionError else Inr (a div b))"

text \<open>\<open>enumerate(xs, n)\<close>.\<close>

fun enumerate_from :: "int \<Rightarrow> 'a list \<Rightarrow> (int \<times> 'a) list" where
  "enumerate_from n [] = []"
| "enumerate_from n (x # xs) = (n, x) # enumerate_from (n + 1) xs"

text \<open>
  What one iteration of the loop of lines 57-60 computes: the ordinal \<open>i\<close>,
  \<open>start_time\<close>, \<open>end_time\<close> and \<open>point.strip()\<close>.
\<close>

record highlight_point =
  ordinal :: int
  start_offset :: int
  end_offset :: int
  summary_text :: string

text \<open>The line that line 59 appends for these four values.\<close>

definition format_line :: "highlight_point \<Rightarrow> string" where
  "format_line p =
     str_int (ordinal p) @ ''. '' @ format_timestamp (start_offset p) @ '' - '' @
     format_timestamp (end_offset p) @ '': '' @ summary_text p @ [CHR 0x0A]"

text \<open>
  Lines 57-60. The loop state is \<open>start_time\<close> and \<open>formatted\<close>; \<open>points\<close> records
  the values of each iteration in order and is not read by the loop.
\<close>

fun timeline_loop ::
  "(int \<times> string) list \<Rightarrow> int \<Rightarrow> int \<Rightarrow> string \<Rightarrow> highlight_point list
     \<Rightarrow> string \<times> highlight_point list"
where
  "timeline_loop [] time_step start_time formatted points = (formatted, points)"
| "timeline_loop ((i, point) # rest) time_step start_time formatted points =
     (let end_time = start_time + 30;
          p = \<lparr>ordinal = i, start_offset = start_time, end_offset = end_time,
               summary_text = strip point\<rparr>
      in timeline_loop rest time_step (start_time + time_step)
           (formatted @ format_line p) (points @ [p]))"

text \<open>Line 52.\<close>

definition total_segments :: "string list \<Rightarrow> int" where
  "total_segments highlights = min 5 (int (length highlights))"

text \<open>
  Lines 44-62. The result is the returned string with the values of the iterations
  that wrote it, or the exception raised; the second component is the list of the
  inputs of all service calls made so far.
\<close>

definition get_reel_segments ::
  "summarizer \<Rightarrow> string \<Rightarrow> int \<Rightarrow> string list
     \<Rightarrow> (exn + string \<times> highlight_point list) \<times> string list"
where
  "get_reel_segments svc transcript video_duration_secs calls =
     (case summarize_chunks svc (transcript_chunks transcript) [] calls of
        (Inl e, calls') \<Rightarrow> (Inl e, calls')
      | (Inr highlights, calls') \<Rightarrow>
          (case py_floordiv video_duration_secs (total_segments highlights + 1) of
             Inl e \<Rightarrow> (Inl e, calls')
           | Inr time_step \<Rightarrow>
               (Inr (timeline_loop
                       (enumerate_from 1 (take (nat (total_segments highlights)) highlights))
                       time_step time_step [] []),
                calls')))"

subsection \<open>Two summarization services for the examples\<close>

text \<open>
  A service that answers every call with the same summary, and one that does so except
  on the call made after \<open>n\<close> earlier calls, where it raises.
\<close>

definition fixed_summarizer :: "string \<Rightarrow> summarizer" where
  "fixed_summarizer s = (\<lambda>calls chunk. Inr [[''summary_text'' \<mapsto> s]])"

definition failing_summarizer :: "nat \<Rightarrow> string \<Rightarrow> summarizer" where
  "failing_summarizer n s =
     (\<lambda>calls chunk. if length calls = n then Inl ''out of memory'' else Inr [[''summary_text'' \<mapsto> s]])"

section \<open>The user interface and the file system\<close>

text \<open>
  What a handler does besides changing the workspace, in order: the Streamlit calls and
  the files written. The pictograph that starts most messages of the source, and the
  space after it, are left out of the message texts. \<open>StTextExn e\<close> is \<open>st.text(str(e))\<close>, and
  \<open>StErrorExn m e\<close> is \<open>st.error\<close> of the message \<open>m\<close> followed by \<open>str(e)\<close>.
\<close>

datatype effect =
    StHeader string
  | StInfo string
  | StSuccess string
  | StWarning string
  | StError string
  | StErrorExn string exn
  | StText string
  | StTextExn exn
  | StTextArea string string
  | StDownloadButton string string
  | StVideo string
  | WriteBytes string "nat list"
  | WriteText string string

definition TEMP_DIR :: string where
  "TEMP_DIR = ''temp''"

text \<open>\<open>os.path.join\<close> of a directory and a base name.\<close>

definition path_join :: "string \<Rightarrow> string \<Rightarrow> string" where
  "path_join d n = d @ ''/'' @ n"

subsection \<open>The highlight extraction call site (lines 188-195)\<close>

definition highlight_call_site ::
  "summarizer \<Rightarrow> string \<Rightarrow> string list \<Rightarrow> effect list \<times> string list"
where
  "highlight_call_site svc transcript calls =
     (case get_reel_segments svc transcript 600 calls of
        (Inr (highlights, points), calls') \<Rightarrow>
          ([StInfo ''Analyzing transcript for engaging reel segments...'',
            StSuccess ''Highlighted Moments Extracted:'',
            StTextArea ''Reel-Worthy Moments'' highlights], calls')
      | (Inl e, calls') \<Rightarrow>
          ([StInfo ''Analyzing transcript for engaging reel segments...'',
            StError ''Failed to extract highlight moments.'',
            StTextExn e], calls'))"

subsection \<open>The transcription loop (lines 157-199)\<close>

text \<open>
  The keyword arguments of \<open>model.transcribe\<close> of line 178, with the path of the file.
\<close>

record transcribe_request =
  req_path :: string
  req_language :: string
  req_fp16 :: bool

text \<open>
  The speech-to-text service. \<open>detect\<close> stands for lines 171-174: from the bytes of
  the audio file to the dictionary of language probabilities, in the dictionary's order,
  or an exception with its text. \<open>transcribe\<close> is line 178 with \<open>result["text"]\<close>.
  The probabilities are of any linearly ordered type.
\<close>

record 'p whisper =
  detect :: "nat list \<Rightarrow> string + (string \<times> 'p) list"
  transcribe :: "nat list \<Rightarrow> transcribe_request \<Rightarrow> string + string"

record upload =
  upload_name :: string
  upload_bytes :: "nat list"

text \<open>
  \<open>max(probs, key=probs.get)\<close>: the first key whose probability is maximal; a later
  key replaces the best one only when its probability is strictly greater.
\<close>

fun max_key_from :: "string \<times> 'p::linorder \<Rightarrow> (string \<times> 'p) list \<Rightarrow> string" where
  "max_key_from best [] = fst best"
| "max_key_from best (kv # rest) = max_key_from (if snd best < snd kv then kv else best) rest"

definition py_max_key :: "(string \<times> 'p::linorder) list \<Rightarrow> exn + string" where
  "py_max_key probs = (case probs of [] \<Rightarrow> Inl ValueError | kv # rest \<Rightarrow> Inr (max_key_from kv rest))"

text \<open>
  The body of the loop for one audio file (lines 163-199): the effects, the
  transcription requests sent, and the inputs of all summarization calls made so far.
  Writing a file is taken to succeed.
\<close>

definition transcribe_audio ::
  "'p::linorder whisper \<Rightarrow> summarizer \<Rightarrow> upload \<Rightarrow> string list
     \<Rightarrow> effect list \<times> transcribe_request list \<times> string list"
where
  "transcribe_audio w svc audio calls =
     (let file_path = path_join TEMP_DIR (upload_name audio);
          failed = StError (''Failed to transcribe '' @ upload_name audio);
          pre = [WriteBytes file_path (upload_bytes audio),
                 StInfo (''Transcribing '' @ upload_name audio @ '' using Whisper...''),
                 StInfo ''Detecting language...'']
      in case detect w (upload_bytes audio) of
           Inl msg \<Rightarrow> (pre @ [failed, StTextExn (ServiceError msg)], [], calls)
         | Inr probs \<Rightarrow>
             (case py_max_key probs of
                Inl e \<Rightarrow> (pre @ [failed, StTextExn e], [], calls)
              | Inr detected_lang \<Rightarrow>
                  (let detected = StSuccess (''Detected Language: '' @ detected_lang);
                       req = \<lparr>req_path = file_path, req_language = ''en'', req_fp16 = False\<rparr>
                   in case transcribe w (upload_bytes audio) req of
                        Inl msg \<Rightarrow>
                          (pre @ [detected, failed, StTextExn (ServiceError msg)], [req], calls)
                      | Inr transcript \<Rightarrow>
                          (let txt = upload_name audio @ ''.txt'';
                               (hl, calls') = highlight_call_site svc transcript calls
                           in (pre @ [detected,
                                 WriteText (path_join TEMP_DIR txt) transcript,
                                 StSuccess (''Transcript for '' @ upload_name audio @ '' generated.''),
                                 StDownloadButton
                                   (''Download Transcript ('' @ upload_name audio @ '')'') transcript,
                                 StTextArea (''Transcript Preview: '' @ upload_name audio) transcript]
                                 @ hl,
                               [req], calls')))))"

text \<open>Lines 162-199: the loop over the uploaded audio files.\<close>

fun transcribe_all ::
  "'p::linorder whisper \<Rightarrow> summarizer \<Rightarrow> upload list \<Rightarrow> string list
     \<Rightarrow> effect list \<times> transcribe_request list \<times> string list"
where
  "transcribe_all w svc [] calls = ([], [], calls)"
| "transcribe_all w svc (audio # rest) calls =
     (let (es1, reqs1, calls1) = transcribe_audio w svc audio calls;
          (es2, reqs2, calls2) = transcribe_all w svc rest calls1
      in (es1 @ es2, reqs1 @ reqs2, calls2))"

text \<open>Lines 157-199: nothing happens when no audio file is uploaded.\<close>

definition transcription_section ::
  "'p::linorder whisper \<Rightarrow> summarizer \<Rightarrow> upload list \<Rightarrow> string list
     \<Rightarrow> effect list \<times> transcribe_request list \<times> string list"
where
  "transcription_section w svc uploaded_audios calls =
     (if uploaded_audios = [] then ([], [], calls)
      else (let (es, reqs, calls') = transcribe_all w svc uploaded_audios calls
            in (StHeader ''Transcribe Multiple Audio Files (Whisper Only)'' # es, reqs, calls')))"

subsection \<open>The workspace directory\<close>

text \<open>
  An entry of a directory is a file, with its name and whether it is locked (removing it
  raises \<open>PermissionError\<close>), or a directory with its name and entries, in the order the
  directory lists them. The workspace path itself is missing, a file, or a directory.
\<close>

datatype node = File string bool | Dir string "node list"

datatype path_state = Missing | IsFile | IsDir "node list"

fun node_name :: "node \<Rightarrow> string" where
  "node_name (File n locked) = n"
| "node_name (Dir n entries) = n"

text \<open>\<open>os.path.exists\<close> of the entry of this name in the workspace.\<close>

definition path_exists :: "path_state \<Rightarrow> string \<Rightarrow> bool" where
  "path_exists ws n = (case ws of IsDir entries \<Rightarrow> n \<in> set (map node_name entries) | _ \<Rightarrow> False)"

subsection \<open>The chunk handler (lines 125-155)\<close>

text \<open>
  The pattern \<open>chunk_*.mp4\<close> on a base name: the name starts with \<open>chunk_\<close> and ends
  with \<open>.mp4\<close>, the two not overlapping.
\<close>

definition glob_chunk :: "string \<Rightarrow> bool" where
  "glob_chunk n =
     (10 \<le> length n \<and> take 6 n = ''chunk_'' \<and> drop (length n - 4) n = ''.mp4'')"

text \<open>\<open>glob.glob(os.path.join(TEMP_DIR, "chunk_*.mp4"))\<close>: the matching paths.\<close>

definition glob_chunks :: "node list \<Rightarrow> string list" where
  "glob_chunks entries = map (path_join TEMP_DIR) (filter glob_chunk (map node_name entries))"

text \<open>
  Lines 133-137: \<open>os.remove\<close> on each matching entry, every exception ignored. It
  removes a file that is not locked, and raises on a locked file and on a directory.
\<close>

fun remove_chunks :: "node list \<Rightarrow> node list" where
  "remove_chunks [] = []"
| "remove_chunks (File n locked # rest) =
     (if glob_chunk n \<and> \<not> locked then remove_chunks rest else File n locked # remove_chunks rest)"
| "remove_chunks (Dir n entries # rest) = Dir n entries # remove_chunks rest"

text \<open>
  \<open>ffmpeg.Error\<close> with its \<open>stderr\<close> attribute, and the text line 155 shows for it:
  the captured output when there is any, \<open>str(e)\<close> otherwise.
\<close>

datatype ffmpeg_error = FfmpegError "string option"

fun ffmpeg_error_text :: "ffmpeg_error \<Rightarrow> string" where
  "ffmpeg_error_text (FfmpegError None) = ''ffmpeg error (see stderr output for detail)''"
| "ffmpeg_error_text (FfmpegError (Some err)) =
     (if err = [] then ''ffmpeg error (see stderr output for detail)'' else err)"

text \<open>
  The media transform service, asked to segment the vertical video (lines 139-144): from
  the entries of the workspace to its outcome and the entries it leaves.
\<close>

type_synonym segment_service = "node list \<Rightarrow> (ffmpeg_error + unit) \<times> node list"

text \<open>
  \<open>workspace_after\<close> is the workspace when the handler ends, \<open>effects\<close> the Streamlit
  calls in order, \<open>service_inputs\<close> the workspace entries at each call of the service,
  and \<open>stopped\<close> whether \<open>st.stop()\<close> ended the script.
\<close>

record chunk_result =
  workspace_after :: path_state
  effects :: "effect list"
  service_inputs :: "node list list"
  stopped :: bool

definition VERTICAL_VIDEO :: string where
  "VERTICAL_VIDEO = ''vertical_output.mp4''"

definition chunk_missing :: "path_state \<Rightarrow> chunk_result" where
  "chunk_missing ws =
     \<lparr>workspace_after = ws,
      effects = [StInfo ''Splitting vertical video into 30-second chunks...'',
                 StError (''Reel format video not found. Please run '' @
                          [CHR 0x27] @ ''Extract Audio & Convert Video to Reel Format'' @
                          [CHR 0x27] @ '' first.'')],
      service_inputs = [],
      stopped = True\<rparr>"

definition chunk_handler :: "segment_service \<Rightarrow> path_state \<Rightarrow> chunk_result" where
  "chunk_handler segment ws =
     (if \<not> path_exists ws VERTICAL_VIDEO then chunk_missing ws
      else
        (case ws of
           IsDir entries \<Rightarrow>
             (let cleared = remove_chunks entries
              in case segment cleared of
                   (Inl e, left) \<Rightarrow>
                     \<lparr>workspace_after = IsDir left,
                      effects = [StInfo ''Splitting vertical video into 30-second chunks...'',
                                 StError ''Chunking failed:'',
                                 StText (ffmpeg_error_text e)],
                      service_inputs = [cleared],
                      stopped = False\<rparr>
                 | (Inr u, left) \<Rightarrow>
                     (let chunks = sort (glob_chunks left)
                      in \<lparr>workspace_after = IsDir left,
                          effects = [StInfo ''Splitting vertical video into 30-second chunks...'',
                                     StSuccess (''Created '' @ str_int (int (length chunks)) @
                                                '' chunks.'')]
                                    @ map StVideo chunks,
                          service_inputs = [cleared],
                          stopped = False\<rparr>))
         | _ \<Rightarrow> chunk_missing ws))"

subsection \<open>Cleaning the workspace (lines 16-31 and 201-211)\<close>

definition skipped_warning :: "string \<Rightarrow> effect" where
  "skipped_warning n = StWarning (''Skipped locked file: '' @ n)"

text \<open>
  Lines 18-22, the loop over the files of one directory: a file that is not locked is
  removed, a locked one stays and is reported.
\<close>

fun remove_files :: "node list \<Rightarrow> node list \<times> effect list" where
  "remove_files [] = ([], [])"
| "remove_files (File n locked # rest) =
     (let (rest', warnings) = remove_files rest
      in if locked then (File n locked # rest', skipped_warning n # warnings)
         else (rest', warnings))"
| "remove_files (Dir n entries # rest) =
     (let (rest', warnings) = remove_files rest in (Dir n entries # rest', warnings))"

text \<open>
  Lines 23-27, the loop over the sub-directories of one directory: \<open>os.rmdir\<close> removes
  an empty directory and raises \<open>OSError\<close>, which is ignored, on any other.
\<close>

fun rmdir_dirs :: "node list \<Rightarrow> node list" where
  "rmdir_dirs [] = []"
| "rmdir_dirs (Dir n [] # rest) = rmdir_dirs rest"
| "rmdir_dirs (e # rest) = e # rmdir_dirs rest"

text \<open>
  Lines 17-27: \<open>os.walk(path, topdown=False)\<close> reaches a directory after all its
  sub-directories, so the body runs on a directory whose sub-directories are done. The
  result is the entry as it is left and the warnings in the order they are issued.
\<close>

fun walk_tree :: "node \<Rightarrow> node \<times> effect list" where
  "walk_tree (File n locked) = (File n locked, [])"
| "walk_tree (Dir n entries) =
     (let below = map walk_tree entries;
          (kept, warnings) = remove_files (map fst below)
      in (Dir n (rmdir_dirs kept), concat (map snd below) @ warnings))"

text \<open>
  Lines 16-31. \<open>os.walk\<close> yields nothing for a path that is not a directory, and the
  last \<open>os.rmdir(path)\<close> removes the path only when it is an empty directory.
\<close>

definition safe_delete_dir :: "path_state \<Rightarrow> path_state \<times> effect list" where
  "safe_delete_dir ws =
     (case ws of
        IsDir entries \<Rightarrow>
          (case walk_tree (Dir TEMP_DIR entries) of
             (File n locked, warnings) \<Rightarrow> (ws, warnings)
           | (Dir n left, warnings) \<Rightarrow> (if left = [] then Missing else IsDir left, warnings))
      | _ \<Rightarrow> (ws, []))"

text \<open>\<open>os.makedirs(path, exist_ok=True)\<close>.\<close>

definition os_makedirs :: "path_state \<Rightarrow> exn + path_state" where
  "os_makedirs ws =
     (case ws of
        Missing \<Rightarrow> Inr (IsDir [])
      | IsDir entries \<Rightarrow> Inr (IsDir entries)
      | IsFile \<Rightarrow> Inl FileExistsError)"

text \<open>Lines 201-211: the workspace after the handler, and its Streamlit calls.\<close>

definition clean_handler :: "path_state \<Rightarrow> path_state \<times> effect list" where
  "clean_handler ws =
     (let (ws1, warnings) = safe_delete_dir ws
      in case os_makedirs ws1 of
           Inr ws2 \<Rightarrow> (ws2, warnings @ [StSuccess ''Temporary files cleaned.''])
         | Inl e \<Rightarrow> (ws1, warnings @ [StErrorExn ''Failed to clean temp files: '' e]))"

subsection \<open>Services for the examples\<close>

text \<open>A segment service that fails and leaves the workspace as it found it.\<close>

definition failing_segmenter :: segment_service where
  "failing_segmenter = (\<lambda>entries. (Inl (FfmpegError None), entries))"

text \<open>
  A speech-to-text service that detects French ahead of German and English and returns
  a fixed transcript.
\<close>

definition sample_whisper :: "nat whisper" where
  "sample_whisper =
     \<lparr>detect = (\<lambda>bytes. Inr [(''en'', 1), (''fr'', 9), (''de'', 9)]),
      transcribe = (\<lambda>bytes req. Inr ''bonjour'')\<rparr>"

section \<open>Notions used in the statements\<close>

text \<open>\<open>os.remove\<close> succeeds on this entry: it is a file and it is not locked.\<close>

definition removable :: "node \<Rightarrow> bool" where
  "removable e = (case e of File n locked \<Rightarrow> \<not> locked | Dir n entries \<Rightarrow> False)"

text \<open>The files of a tree, each with its name and whether it is locked, in order.\<close>

fun tree_files :: "node \<Rightarrow> (string \<times> bool) list" where
  "tree_files (File n locked) = [(n, locked)]"
| "tree_files (Dir n entries) = concat (map tree_files entries)"

definition dir_files :: "node list \<Rightarrow> (string \<times> bool) list" where
  "dir_files entries = concat (map tree_files entries)"

text \<open>No directory of the tree is empty.\<close>

fun nonempty_dirs :: "node \<Rightarrow> bool" where
  "nonempty_dirs (File n locked) = True"
| "nonempty_dirs (Dir n entries) = (entries \<noteq> [] \<and> list_all nonempty_dirs entries)"

text \<open>
  The tree holds a locked file, and what is left of a tree that does: its locked files
  and the directories that hold one, each where it was.
\<close>

fun keeps_locked :: "node \<Rightarrow> bool" where
  "keeps_locked (File n locked) = locked"
| "keeps_locked (Dir n entries) = list_ex keeps_locked entries"

fun pruned :: "node \<Rightarrow> node" where
  "pruned (File n locked) = File n locked"
| "pruned (Dir n entries) = Dir n (map pruned (filter keeps_locked entries))"

text \<open>
  The files of a tree, each with the names of the directories that lead to it from the
  top, its own name and whether it is locked.
\<close>

fun tree_paths :: "string list \<Rightarrow> node \<Rightarrow> (string list \<times> string \<times> bool) list" where
  "tree_paths p (File n locked) = [(p, n, locked)]"
| "tree_paths p (Dir n entries) = concat (map (tree_paths (p @ [n])) entries)"

definition dir_paths :: "node list \<Rightarrow> (string list \<times> string \<times> bool) list" where
  "dir_paths entries = concat (map (tree_paths []) entries)"

text \<open>
  What the bottom-up pass leaves of an entry: a file is untouched at this point (its
  parent's loop handles it); a directory keeps exactly its locked files, every one of
  them is reported once, and no directory below it is empty.
\<close>

definition walked :: "node \<Rightarrow> node \<times> effect list \<Rightarrow> bool" where
  "walked e r =
     (case fst r of
        File n locked \<Rightarrow> e = File n locked \<and> snd r = []
      | Dir n left \<Rightarrow>
          dir_files left = filter snd (tree_files e)
          \<and> mset (snd r) = mset (map (\<lambda>f. skipped_warning (fst f)) (filter snd (tree_files e)))
          \<and> list_all nonempty_dirs left)"

section \<open>Properties of the highlight extraction\<close>

subsection \<open>The windows\<close>

lemma py_range_unfold_lt:
  "0 < step \<Longrightarrow> i < stop \<Longrightarrow> py_range i stop step = i # py_range (i + step) stop step"
  by (subst py_range.simps) simp

lemma py_range_unfold_ge:
  "stop \<le> i \<Longrightarrow> py_range i stop step = []"
  by (subst py_range.simps) simp

lemma length_py_range:
  "0 < step \<Longrightarrow> length (py_range i stop step) = (stop - i + step - 1) div step"
proof (induction i stop step rule: py_range.induct)
  case (1 i stop step)
  show ?case
  proof (cases "i < stop")
    case True
    have eq: "stop - i + step - 1 = (stop - (i + step) + step - 1) + step \<or> stop \<le> i + step"
      using True by arith
    have IH: "length (py_range (i + step) stop step) = (stop - (i + step) + step - 1) div step"
      using 1 True by simp
    show ?thesis
    proof (cases "stop \<le> i + step")
      case True
      then have "py_range (i + step) stop step = []" by (rule py_range_unfold_ge)
      moreover have "(stop - i + step - 1) div step = 1"
      proof -
        have "step \<le> stop - i + step - 1" "stop - i + step - 1 < 2 * step"
          using True \<open>i < stop\<close> 1(2) by arith+
        then show ?thesis
          by (metis (no_types) Suc_1 div_nat_eqI mult.commute mult_Suc_right nat_mult_1_right One_nat_def mult.right_neutral)
      qed
      ultimately show ?thesis using py_range_unfold_lt[OF 1(2) \<open>i < stop\<close>] by simp
    next
      case False
      then have "stop - i + step - 1 = (stop - (i + step) + step - 1) + step" using eq by simp
      moreover have "((stop - (i + step) + step - 1) + step) div step = Suc ((stop - (i + step) + step - 1) div step)"
        using 1(2) by (simp only: div_add_self2)
      ultimately have "(stop - i + step - 1) div step = Suc ((stop - (i + step) + step - 1) div step)"
        by (simp only:)
      then show ?thesis using IH py_range_unfold_lt[OF 1(2) \<open>i < stop\<close>] by simp
    qed
  next
    case False
    then have "stop - i + step - 1 < step" using 1 by arith
    then show ?thesis using False py_range_unfold_ge[of stop i step] by simp
  qed
qed

lemma nth_py_range:
  "0 < step \<Longrightarrow> k < length (py_range i stop step) \<Longrightarrow> py_range i stop step ! k = i + k * step"
proof (induction i stop step arbitrary: k rule: py_range.induct)
  case (1 i stop step)
  from "1.prems" have lt: "i < stop"
    by (subst (asm) py_range.simps) (auto split: if_splits)
  then have unf: "py_range i stop step = i # py_range (i + step) stop step"
    using "1.prems" by (simp add: py_range_unfold_lt)
  show ?case
  proof (cases k)
    case 0
    then show ?thesis using unf by simp
  next
    case (Suc j)
    then have "j < length (py_range (i + step) stop step)" using "1.prems" unf by simp
    from "1.IH"[OF _ lt _ this] "1.prems" have "py_range (i + step) stop step ! j = i + step + j * step" by simp
    then show ?thesis using unf Suc by simp
  qed
qed

lemma concat_chunks_from:
  "0 < step \<Longrightarrow> concat (map (\<lambda>i. slice xs i (i + step)) (py_range i (length xs) step)) = drop i xs"
proof (induction i "length xs" step rule: py_range.induct)
  case (1 i step)
  show ?case
  proof (cases "i < length xs")
    case True
    then have unf: "py_range i (length xs) step = i # py_range (i + step) (length xs) step"
      using 1 by (simp add: py_range_unfold_lt)
    have IH: "concat (map (\<lambda>i. slice xs i (i + step)) (py_range (i + step) (length xs) step)) = drop (i + step) xs"
      using 1 True by simp
    have "drop (i + step) xs = drop step (drop i xs)" by (simp add: add.commute)
    then have "take step (drop i xs) @ drop (i + step) xs = drop i xs"
      by (simp only: append_take_drop_id)
    then show ?thesis unfolding unf using IH by (simp add: slice_def)
  next
    case False
    then show ?thesis by (simp add: py_range_unfold_ge)
  qed
qed

lemma ceiling_div_1000: "int ((L + 999) div 1000) = \<lceil>real L / 1000\<rceil>"
proof -
  have "\<lceil>real L / 1000\<rceil> = \<lceil>real_of_int (int L) / real_of_int 1000\<rceil>" by simp
  also have "\<dots> = - ((- int L) div 1000)"
    by (simp only: ceiling_divide_eq_div)
  also have "\<dots> = int ((L + 999) div 1000)" by (simp add: zdiv_int)
  finally show ?thesis by simp
qed

lemma length_transcript_chunks:
  "length (transcript_chunks t) = (length t + 999) div 1000"
  by (simp add: transcript_chunks_def length_py_range)

lemma nth_transcript_chunks:
  "k < length (transcript_chunks t) \<Longrightarrow> transcript_chunks t ! k = take 1000 (drop (1000 * k) t)"
  by (simp add: transcript_chunks_def nth_py_range slice_def mult.commute)

lemma concat_transcript_chunks: "concat (transcript_chunks t) = t"
  using concat_chunks_from[of 1000 t 0] by (simp add: transcript_chunks_def)

lemma length_nth_transcript_chunks:
  assumes "k < length (transcript_chunks t)"
  shows "0 < length (transcript_chunks t ! k)" "length (transcript_chunks t ! k) \<le> 1000"
    "Suc k < length (transcript_chunks t) \<Longrightarrow> length (transcript_chunks t ! k) = 1000"
proof -
  have k: "k < (length t + 999) div 1000" using assms by (simp add: length_transcript_chunks)
  then have "1000 * k < length t" by arith
  then show "0 < length (transcript_chunks t ! k)" "length (transcript_chunks t ! k) \<le> 1000"
    using assms by (simp_all add: nth_transcript_chunks)
  assume "Suc k < length (transcript_chunks t)"
  then have "Suc k < (length t + 999) div 1000" by (simp add: length_transcript_chunks)
  then have "1000 * k + 1000 \<le> length t" by arith
  then show "length (transcript_chunks t ! k) = 1000"
    using assms by (simp add: nth_transcript_chunks)
qed

text \<open>
  Claim C1. The windows of a transcript of length \<open>L\<close> are \<open>ceil(L / 1000)\<close> many;
  concatenated in order they give the transcript back; window \<open>k\<close> is the characters
  at the positions from \<open>1000 k\<close> up to \<open>1000 k + 1000\<close> (so the windows follow the text
  from left to right, without gap or overlap); every window is non-empty and has at most
  1000 characters, and every window but the last has exactly 1000.
\<close>

theorem C1_windows_partition:
  "int (length (transcript_chunks t)) = \<lceil>real (length t) / 1000\<rceil>
   \<and> concat (transcript_chunks t) = t
   \<and> (\<forall>k < length (transcript_chunks t).
         transcript_chunks t ! k = take 1000 (drop (1000 * k) t)
         \<and> 0 < length (transcript_chunks t ! k)
         \<and> length (transcript_chunks t ! k) \<le> 1000
         \<and> (Suc k < length (transcript_chunks t) \<longrightarrow> length (transcript_chunks t ! k) = 1000))"
  using length_nth_transcript_chunks[of _ t]
  by (simp add: length_transcript_chunks ceiling_div_1000 concat_transcript_chunks
      nth_transcript_chunks del: of_nat_div)

theorem C1_windows_partition_witness:
  "length (transcript_chunks (replicate 1001 CHR ''a'')) = 2
   \<and> transcript_chunks (replicate 1001 CHR ''a'') ! 0 = replicate 1000 CHR ''a''
   \<and> length (transcript_chunks (replicate 1001 CHR ''a'') ! 0) = 1000
   \<and> transcript_chunks (replicate 1001 CHR ''a'') ! 1 = ''a''
   \<and> concat (transcript_chunks (replicate 1001 CHR ''a'')) = replicate 1001 CHR ''a''"
proof -
  let ?t = "replicate 1001 CHR ''a''"
  have len: "length (transcript_chunks ?t) = 2"
    by (simp add: transcript_chunks_def py_range.simps)
  have all: "\<forall>k < length (transcript_chunks ?t).
         transcript_chunks ?t ! k = take 1000 (drop (1000 * k) ?t)
         \<and> 0 < length (transcript_chunks ?t ! k)
         \<and> length (transcript_chunks ?t ! k) \<le> 1000
         \<and> (Suc k < length (transcript_chunks ?t) \<longrightarrow> length (transcript_chunks ?t ! k) = 1000)"
    and cat: "concat (transcript_chunks ?t) = ?t"
    using C1_windows_partition[of ?t] by blast+
  from all len have "transcript_chunks ?t ! 0 = take 1000 (drop (1000 * 0) ?t)"
    "length (transcript_chunks ?t ! 0) = 1000"
    "transcript_chunks ?t ! 1 = take 1000 (drop (1000 * 1) ?t)"
    by simp_all
  then show ?thesis using len cat by simp
qed

subsection \<open>The two loops\<close>

lemma summarize_chunks_Inr:
  "summarize_chunks svc cs hs calls = (Inr hs', calls') \<Longrightarrow>
     length hs' = length hs + length cs \<and> calls' = calls @ cs \<and> take (length hs) hs' = hs"
proof (induction cs arbitrary: hs calls)
  case Nil
  then show ?case by simp
next
  case (Cons c cs)
  from Cons.prems obtain d ds s where
    svc: "svc calls c = Inr (d # ds)" "d ''summary_text'' = Some s"
    and rec: "summarize_chunks svc cs (hs @ [s]) (calls @ [c]) = (Inr hs', calls')"
    by (auto split: sum.splits list.splits option.splits)
  from Cons.IH[OF rec] have "length hs' = length hs + length (c # cs)" "calls' = calls @ c # cs"
    and t: "take (Suc (length hs)) hs' = hs @ [s]" by simp_all
  moreover have "take (length hs) hs' = take (length hs) (take (Suc (length hs)) hs')"
    by (simp add: min_def)
  ultimately show ?case by (simp del: take_take)
qed

lemma summarize_chunks_first:
  assumes "summarize_chunks svc (c # cs) [] calls = (Inr hs', calls')"
  shows "\<exists>d ds s. svc calls c = Inr (d # ds) \<and> d ''summary_text'' = Some s \<and> hs' ! 0 = s"
proof -
  from assms obtain d ds s where
    svc: "svc calls c = Inr (d # ds)" "d ''summary_text'' = Some s"
    and rec: "summarize_chunks svc cs ([] @ [s]) (calls @ [c]) = (Inr hs', calls')"
    by (auto split: sum.splits list.splits option.splits)
  from summarize_chunks_Inr[OF rec] have "take 1 hs' = [s]" by simp
  then have "hs' ! 0 = s" by (cases hs') simp_all
  with svc show ?thesis by blast
qed

lemma summarize_chunks_fails:
  "k < length cs \<Longrightarrow> svc (calls @ take k cs) (cs ! k) = Inl msg \<Longrightarrow>
     \<exists>e. fst (summarize_chunks svc cs hs calls) = Inl e"
proof (induction cs arbitrary: k hs calls)
  case Nil
  then show ?case by simp
next
  case (Cons c cs)
  show ?case
  proof (cases k)
    case 0
    with Cons.prems show ?thesis by simp
  next
    case (Suc j)
    with Cons.prems have j: "j < length cs" "svc ((calls @ [c]) @ take j cs) (cs ! j) = Inl msg"
      by simp_all
    from Cons.IH[OF j] show ?thesis
      by (auto split: sum.splits list.splits option.splits)
  qed
qed

lemma summarize_chunks_calls:
  "\<exists>n \<le> length cs. snd (summarize_chunks svc cs hs calls) = calls @ take n cs"
proof (induction cs arbitrary: hs calls)
  case Nil
  then show ?case by simp
next
  case (Cons c cs)
  have one: "\<exists>n \<le> length (c # cs). calls @ [c] = calls @ take n (c # cs)"
    by (rule exI[of _ 1]) simp
  have more: "\<exists>n \<le> length (c # cs). snd (summarize_chunks svc cs hs2 (calls @ [c])) = calls @ take n (c # cs)" for hs2
  proof -
    from Cons.IH[of hs2 "calls @ [c]"] obtain n where
      "n \<le> length cs" "snd (summarize_chunks svc cs hs2 (calls @ [c])) = (calls @ [c]) @ take n cs"
      by blast
    then show ?thesis by (intro exI[of _ "Suc n"]) simp
  qed
  show ?case using one more
    by (simp split: sum.splits list.splits option.splits)
qed

lemma summarize_chunks_answered:
  assumes "\<forall>k < length cs. \<exists>dict rest s.
             svc (calls @ take k cs) (cs ! k) = Inr (dict # rest) \<and> dict ''summary_text'' = Some s"
  shows "\<exists>hs'. summarize_chunks svc cs hs calls = (Inr hs', calls @ cs)"
  using assms
proof (induction cs arbitrary: hs calls)
  case Nil
  then show ?case by simp
next
  case (Cons c cs)
  from Cons.prems[rule_format, of 0] obtain dict rest s where
    first: "svc calls c = Inr (dict # rest)" "dict ''summary_text'' = Some s"
    by auto
  have later: "\<forall>k < length cs. \<exists>dict rest s.
             svc ((calls @ [c]) @ take k cs) (cs ! k) = Inr (dict # rest) \<and> dict ''summary_text'' = Some s"
  proof (intro allI impI)
    fix k assume "k < length cs"
    then have "Suc k < length (c # cs)" by simp
    from Cons.prems[rule_format, OF this] show "\<exists>dict rest s.
             svc ((calls @ [c]) @ take k cs) (cs ! k) = Inr (dict # rest) \<and> dict ''summary_text'' = Some s"
      by simp
  qed
  from Cons.IH[OF later, of "hs @ [s]"] first show ?case by simp
qed

lemma summarize_chunks_no_zero_division:
  "fst (summarize_chunks svc cs hs calls) \<noteq> Inl ZeroDivisionError"
  by (induction cs arbitrary: hs calls) (simp_all split: sum.splits list.splits option.splits)

lemma length_enumerate_from [simp]: "length (enumerate_from n xs) = length xs"
  by (induction xs arbitrary: n) simp_all

lemma nth_enumerate_from:
  "j < length xs \<Longrightarrow> enumerate_from n xs ! j = (n + int j, xs ! j)"
proof (induction xs arbitrary: n j)
  case Nil
  then show ?case by simp
next
  case (Cons x xs)
  then show ?case by (cases j) simp_all
qed

lemma map_upt_shift: "map g [0..<Suc n] = g 0 # map (\<lambda>j. g (Suc j)) [0..<n]"
  by (simp only: upt_conv_Cons[OF zero_less_Suc] list.map map_Suc_upt[symmetric] map_map comp_def)

lemma timeline_loop_eq:
  "timeline_loop xs step start f pts =
     (f @ concat (map format_line
            (map (\<lambda>j. \<lparr>ordinal = fst (xs ! j), start_offset = start + int j * step,
                        end_offset = start + int j * step + 30,
                        summary_text = strip (snd (xs ! j))\<rparr>) [0..<length xs])),
      pts @ map (\<lambda>j. \<lparr>ordinal = fst (xs ! j), start_offset = start + int j * step,
                        end_offset = start + int j * step + 30,
                        summary_text = strip (snd (xs ! j))\<rparr>) [0..<length xs])"
proof (induction xs arbitrary: start f pts)
  case Nil
  then show ?case by simp
next
  case (Cons x xs)
  obtain i point where x: "x = (i, point)" by (cases x)
  show ?case
    unfolding x length_Cons map_upt_shift
    by (simp add: Cons.IH Let_def algebra_simps)
qed

subsection \<open>The extraction\<close>

lemma total_segments_nat: "nat (total_segments hs) = min 5 (length hs)"
  by (simp add: total_segments_def min_def)

lemma get_reel_segments_Inr:
  assumes "get_reel_segments svc t d calls = (Inr (formatted, points), calls')"
  shows "\<exists>hs. summarize_chunks svc (transcript_chunks t) [] calls = (Inr hs, calls')
           \<and> length hs = length (transcript_chunks t)
           \<and> points = map (\<lambda>j. \<lparr>ordinal = 1 + int j,
                  start_offset = d div (total_segments hs + 1) + int j * (d div (total_segments hs + 1)),
                  end_offset = d div (total_segments hs + 1) + int j * (d div (total_segments hs + 1)) + 30,
                  summary_text = strip (hs ! j)\<rparr>) [0..<min 5 (length hs)]
           \<and> formatted = concat (map format_line points)"
proof -
  from assms obtain hs where
    sm: "summarize_chunks svc (transcript_chunks t) [] calls = (Inr hs, calls')"
    and tl: "timeline_loop (enumerate_from 1 (take (nat (total_segments hs)) hs))
               (d div (total_segments hs + 1)) (d div (total_segments hs + 1)) [] [] = (formatted, points)"
    by (auto simp: get_reel_segments_def py_floordiv_def split: prod.splits sum.splits if_splits)
  from summarize_chunks_Inr[OF sm] have len: "length hs = length (transcript_chunks t)" by simp
  let ?n = "min 5 (length hs)"
  let ?ts = "d div (total_segments hs + 1)"
  let ?xs = "enumerate_from 1 (take ?n hs)"
  have lx: "length ?xs = ?n" by simp
  have nth: "?xs ! j = (1 + int j, hs ! j)" if "j < ?n" for j
    using that nth_enumerate_from[of j "take ?n hs" 1] by simp
  have mp: "map (\<lambda>j. \<lparr>ordinal = fst (?xs ! j), start_offset = ?ts + int j * ?ts,
                        end_offset = ?ts + int j * ?ts + 30,
                        summary_text = strip (snd (?xs ! j))\<rparr>) [0..<?n]
          = map (\<lambda>j. \<lparr>ordinal = 1 + int j, start_offset = ?ts + int j * ?ts,
                        end_offset = ?ts + int j * ?ts + 30,
                        summary_text = strip (hs ! j)\<rparr>) [0..<?n]"
    by (rule map_cong[OF refl]) (simp add: nth)
  have "timeline_loop ?xs ?ts ?ts [] [] = (formatted, points)"
    using tl by (simp only: total_segments_nat)
  then have pts: "points = map (\<lambda>j. \<lparr>ordinal = 1 + int j, start_offset = ?ts + int j * ?ts,
                        end_offset = ?ts + int j * ?ts + 30,
                        summary_text = strip (hs ! j)\<rparr>) [0..<?n]"
    and fm: "formatted = concat (map format_line points)"
    unfolding timeline_loop_eq lx mp by (auto simp only: prod.inject append_Nil)
  from sm len pts fm show ?thesis by blast
qed

lemma get_reel_segments_produces:
  assumes "\<forall>k < length (transcript_chunks t). \<exists>dict rest s.
             svc (calls @ take k (transcript_chunks t)) (transcript_chunks t ! k) = Inr (dict # rest)
             \<and> dict ''summary_text'' = Some s"
  shows "\<exists>formatted points. get_reel_segments svc t d calls =
           (Inr (formatted, points), calls @ transcript_chunks t)"
proof -
  from summarize_chunks_answered[OF assms, of "[]"] obtain hs where
    "summarize_chunks svc (transcript_chunks t) [] calls = (Inr hs, calls @ transcript_chunks t)"
    by blast
  then show ?thesis
    by (simp add: get_reel_segments_def py_floordiv_def total_segments_def split: prod.splits)
qed

text \<open>
  \<open>strip\<close> takes whitespace, and nothing else, from the two ends: what it returns
  neither starts nor ends with a whitespace character.
\<close>

lemma strip_shape:
  "\<exists>pre post. s = pre @ strip s @ post \<and> list_all py_isspace pre \<and> list_all py_isspace post
     \<and> (strip s \<noteq> [] \<longrightarrow> \<not> py_isspace (hd (strip s)) \<and> \<not> py_isspace (last (strip s)))"
proof -
  define a where "a = takeWhile py_isspace s"
  define b where "b = dropWhile py_isspace s"
  define c where "c = dropWhile py_isspace (rev b)"
  define e where "e = takeWhile py_isspace (rev b)"
  have s: "s = a @ b" by (simp add: a_def b_def)
  have "rev b = e @ c" by (simp add: e_def c_def)
  then have b: "b = rev c @ rev e" by (metis rev_append rev_rev_ident)
  have st: "strip s = rev c" by (simp add: strip_def c_def b_def)
  have pa: "list_all py_isspace a" unfolding a_def list_all_iff by (auto dest: set_takeWhileD)
  have pe: "list_all py_isspace (rev e)" unfolding e_def list_all_iff by (auto dest: set_takeWhileD)
  have ends: "\<not> py_isspace (hd (rev c)) \<and> \<not> py_isspace (last (rev c))" if ne: "rev c \<noteq> []"
  proof -
    from ne have cne: "c \<noteq> []" by simp
    then have "\<not> py_isspace (hd c)" unfolding c_def by (rule hd_dropWhile)
    then have l: "\<not> py_isspace (last (rev c))" using cne by (simp add: last_rev)
    from ne b have bne: "b \<noteq> []" by simp
    then have "\<not> py_isspace (hd b)" unfolding b_def by (rule hd_dropWhile)
    moreover have "hd b = hd (rev c)" using b ne by simp
    ultimately show ?thesis using l by simp
  qed
  have "s = a @ strip s @ rev e" using s b st by simp
  with pa pe ends st show ?thesis by metis
qed

subsection \<open>Evaluation on examples\<close>

lemmas format_eval = format_line_def format_timestamp_def format_02_def zero_pad_def
  str_nat.simps digit_char_def str_int_def

lemma strip_hi: "strip '' hi '' = ''hi''"
  by (simp add: strip_def py_isspace_def)

lemma format_timestamp_examples:
  "format_timestamp 200 = ''00:03:20''" "format_timestamp 230 = ''00:03:50''"
  "format_timestamp 100 = ''00:01:40''" "format_timestamp 130 = ''00:02:10''"
  "format_timestamp 0 = ''00:00:00''" "format_timestamp 30 = ''00:00:30''"
  "format_timestamp 3661 = ''01:01:01''"
  by (simp_all add: format_timestamp_def format_02_def zero_pad_def str_nat.simps digit_char_def)

lemma format_line_first:
  "format_line \<lparr>ordinal = 1, start_offset = 100, end_offset = 130, summary_text = s\<rparr> =
     ''1. 00:01:40 - 00:02:10: '' @ s @ [CHR 0x0A]"
  by (simp add: format_eval)

lemma transcript_chunks_1001: "transcript_chunks (replicate 1001 CHR ''a'') = [replicate 1000 CHR ''a'', ''a'']"
  by (simp add: transcript_chunks_def py_range.simps slice_def)

lemma transcript_chunks_5001:
  "transcript_chunks (replicate 5001 CHR ''a'') =
     [replicate 1000 CHR ''a'', replicate 1000 CHR ''a'', replicate 1000 CHR ''a'',
      replicate 1000 CHR ''a'', replicate 1000 CHR ''a'', ''a'']"
  by (simp add: transcript_chunks_def py_range.simps slice_def)

lemma get_reel_segments_two_windows:
  "get_reel_segments (fixed_summarizer '' hi '') (replicate 1001 CHR ''a'') 600 [] =
    (Inr (''1. 00:03:20 - 00:03:50: hi'' @ [CHR 0x0A] @ ''2. 00:06:40 - 00:07:10: hi'' @ [CHR 0x0A],
          [\<lparr>ordinal = 1, start_offset = 200, end_offset = 230, summary_text = ''hi''\<rparr>,
           \<lparr>ordinal = 2, start_offset = 400, end_offset = 430, summary_text = ''hi''\<rparr>]),
     [replicate 1000 CHR ''a'', ''a''])"
  by (simp add: get_reel_segments_def transcript_chunks_1001 fixed_summarizer_def py_floordiv_def
      total_segments_def strip_hi format_line_def 
      format_timestamp_def format_02_def zero_pad_def str_nat.simps digit_char_def str_int_def)

lemma get_reel_segments_short_duration:
  "get_reel_segments (fixed_summarizer '' hi '') (replicate 1001 CHR ''a'') 2 [] =
    (Inr (''1. 00:00:00 - 00:00:30: hi'' @ [CHR 0x0A] @ ''2. 00:00:00 - 00:00:30: hi'' @ [CHR 0x0A],
          [\<lparr>ordinal = 1, start_offset = 0, end_offset = 30, summary_text = ''hi''\<rparr>,
           \<lparr>ordinal = 2, start_offset = 0, end_offset = 30, summary_text = ''hi''\<rparr>]),
     [replicate 1000 CHR ''a'', ''a''])"
  by (simp add: get_reel_segments_def transcript_chunks_1001 fixed_summarizer_def py_floordiv_def
      total_segments_def strip_hi format_eval)

lemma strip_tab_newline: "strip ([CHR 0x09] @ '' hi there '' @ [CHR 0x0A]) = ''hi there''"
  by (simp add: strip_def py_isspace_def)

lemma get_reel_segments_six_windows:
  "get_reel_segments (fixed_summarizer ([CHR 0x09] @ '' hi there '' @ [CHR 0x0A]))
      (replicate 5001 CHR ''a'') 600 [] =
    (Inr (''1. 00:01:40 - 00:02:10: hi there'' @ [CHR 0x0A]
          @ ''2. 00:03:20 - 00:03:50: hi there'' @ [CHR 0x0A]
          @ ''3. 00:05:00 - 00:05:30: hi there'' @ [CHR 0x0A]
          @ ''4. 00:06:40 - 00:07:10: hi there'' @ [CHR 0x0A]
          @ ''5. 00:08:20 - 00:08:50: hi there'' @ [CHR 0x0A],
          [\<lparr>ordinal = 1, start_offset = 100, end_offset = 130, summary_text = ''hi there''\<rparr>,
           \<lparr>ordinal = 2, start_offset = 200, end_offset = 230, summary_text = ''hi there''\<rparr>,
           \<lparr>ordinal = 3, start_offset = 300, end_offset = 330, summary_text = ''hi there''\<rparr>,
           \<lparr>ordinal = 4, start_offset = 400, end_offset = 430, summary_text = ''hi there''\<rparr>,
           \<lparr>ordinal = 5, start_offset = 500, end_offset = 530, summary_text = ''hi there''\<rparr>]),
     [replicate 1000 CHR ''a'', replicate 1000 CHR ''a'', replicate 1000 CHR ''a'',
      replicate 1000 CHR ''a'', replicate 1000 CHR ''a'', ''a''])"
  using strip_tab_newline
  by (simp add: get_reel_segments_def transcript_chunks_5001 fixed_summarizer_def py_floordiv_def
      total_segments_def format_eval)

lemma get_reel_segments_failing_service:
  "get_reel_segments (failing_summarizer 1 '' hi '') (replicate 1001 CHR ''a'') d [] =
     (Inl (ServiceError ''out of memory''), [replicate 1000 CHR ''a'', ''a''])"
  by (simp add: get_reel_segments_def transcript_chunks_1001 failing_summarizer_def)

subsection \<open>The timeline\<close>

text \<open>
  Claim C2. Whenever the extraction returns, the timeline has \<open>min(5, window_count)\<close>
  entries, their ordinals are \<open>1, 2, ...\<close> up to the length without gaps, and the
  returned string is the lines of these entries in order. It does return such a timeline
  when the service answers each call of the loop with a list whose first dictionary
  has the key \<open>summary_text\<close>, and the service is then called once for each window. For
  the empty transcript the extraction returns the empty string and the empty timeline, and
  the list of service calls is unchanged: the summarization service is not called.
\<close>

theorem C2_timeline_length_and_ordinals:
  "(get_reel_segments svc t d calls = (Inr (formatted, points), calls') \<longrightarrow>
      length points = min 5 (length (transcript_chunks t))
      \<and> map ordinal points = map int [1..<Suc (length points)]
      \<and> formatted = concat (map format_line points))
   \<and> ((\<forall>k < length (transcript_chunks t). \<exists>dict rest s.
          svc (calls @ take k (transcript_chunks t)) (transcript_chunks t ! k) = Inr (dict # rest)
          \<and> dict ''summary_text'' = Some s) \<longrightarrow>
       (\<exists>produced timeline.
          get_reel_segments svc t d calls = (Inr (produced, timeline), calls @ transcript_chunks t)
          \<and> length timeline = min 5 (length (transcript_chunks t))
          \<and> map ordinal timeline = map int [1..<Suc (length timeline)]
          \<and> produced = concat (map format_line timeline)))
   \<and> get_reel_segments svc [] d calls = (Inr ([], []), calls)"
proof -
  have post: "length ps = min 5 (length (transcript_chunks t))
      \<and> map ordinal ps = map int [1..<Suc (length ps)]
      \<and> f = concat (map format_line ps)"
    if "get_reel_segments svc t d calls = (Inr (f, ps), cs)" for f ps cs
  proof -
    from get_reel_segments_Inr[OF that] obtain hs where
      len: "length hs = length (transcript_chunks t)"
      and pts: "ps = map (\<lambda>j. \<lparr>ordinal = 1 + int j,
                  start_offset = d div (total_segments hs + 1) + int j * (d div (total_segments hs + 1)),
                  end_offset = d div (total_segments hs + 1) + int j * (d div (total_segments hs + 1)) + 30,
                  summary_text = strip (hs ! j)\<rparr>) [0..<min 5 (length hs)]"
      and fm: "f = concat (map format_line ps)"
      by blast
    from pts len have n: "length ps = min 5 (length (transcript_chunks t))" by simp
    have "map ordinal ps = map (\<lambda>j. 1 + int j) [0..<length ps]"
      unfolding pts by (simp add: comp_def)
    also have "\<dots> = map int (map Suc [0..<length ps])" by (simp add: comp_def)
    also have "\<dots> = map int [1..<Suc (length ps)]"
      by (simp only: map_Suc_upt One_nat_def)
    finally have "map ordinal ps = map int [1..<Suc (length ps)]" .
    with n fm show ?thesis by blast
  qed
  have produce: "\<exists>produced timeline.
          get_reel_segments svc t d calls = (Inr (produced, timeline), calls @ transcript_chunks t)
          \<and> length timeline = min 5 (length (transcript_chunks t))
          \<and> map ordinal timeline = map int [1..<Suc (length timeline)]
          \<and> produced = concat (map format_line timeline)"
    if "\<forall>k < length (transcript_chunks t). \<exists>dict rest s.
          svc (calls @ take k (transcript_chunks t)) (transcript_chunks t ! k) = Inr (dict # rest)
          \<and> dict ''summary_text'' = Some s"
  proof -
    from get_reel_segments_produces[OF that, of d] obtain f ps where
      g: "get_reel_segments svc t d calls = (Inr (f, ps), calls @ transcript_chunks t)" by blast
    from post[OF g] g show ?thesis by blast
  qed
  have "transcript_chunks ([] :: string) = []"
    by (simp add: transcript_chunks_def py_range_unfold_ge)
  then have empty: "get_reel_segments svc [] d calls = (Inr ([], []), calls)"
    by (simp add: get_reel_segments_def py_floordiv_def total_segments_def)
  from post produce empty show ?thesis by blast
qed

theorem C2_timeline_length_and_ordinals_witness:
  "length (transcript_chunks (replicate 5001 CHR ''a'')) = 6
   \<and> fst (get_reel_segments (fixed_summarizer ([CHR 0x09] @ '' hi there '' @ [CHR 0x0A]))
           (replicate 5001 CHR ''a'') 600 []) =
      Inr (''1. 00:01:40 - 00:02:10: hi there'' @ [CHR 0x0A]
          @ ''2. 00:03:20 - 00:03:50: hi there'' @ [CHR 0x0A]
          @ ''3. 00:05:00 - 00:05:30: hi there'' @ [CHR 0x0A]
          @ ''4. 00:06:40 - 00:07:10: hi there'' @ [CHR 0x0A]
          @ ''5. 00:08:20 - 00:08:50: hi there'' @ [CHR 0x0A],
          [\<lparr>ordinal = 1, start_offset = 100, end_offset = 130, summary_text = ''hi there''\<rparr>,
           \<lparr>ordinal = 2, start_offset = 200, end_offset = 230, summary_text = ''hi there''\<rparr>,
           \<lparr>ordinal = 3, start_offset = 300, end_offset = 330, summary_text = ''hi there''\<rparr>,
           \<lparr>ordinal = 4, start_offset = 400, end_offset = 430, summary_text = ''hi there''\<rparr>,
           \<lparr>ordinal = 5, start_offset = 500, end_offset = 530, summary_text = ''hi there''\<rparr>])
   \<and> length [\<lparr>ordinal = 1, start_offset = 100, end_offset = 130, summary_text = ''hi there''\<rparr>,
           \<lparr>ordinal = 2, start_offset = 200, end_offset = 230, summary_text = ''hi there''\<rparr>,
           \<lparr>ordinal = 3, start_offset = 300, end_offset = 330, summary_text = ''hi there''\<rparr>,
           \<lparr>ordinal = 4, start_offset = 400, end_offset = 430, summary_text = ''hi there''\<rparr>,
           \<lparr>ordinal = 5, start_offset = 500, end_offset = 530, summary_text = ''hi there''\<rparr>]
       = min 5 (length (transcript_chunks (replicate 5001 CHR ''a'')))
   \<and> (\<exists>produced timeline.
         fst (get_reel_segments (fixed_summarizer ([CHR 0x09] @ '' hi there '' @ [CHR 0x0A]))
               (replicate 5001 CHR ''a'') 600 []) = Inr (produced, timeline)
         \<and> length timeline = 5 \<and> map ordinal timeline = [1, 2, 3, 4, 5])"
proof -
  let ?svc = "fixed_summarizer ([CHR 0x09] @ '' hi there '' @ [CHR 0x0A])"
  let ?t = "replicate 5001 CHR ''a''"
  have six: "length (transcript_chunks ?t) = 6" by (simp add: transcript_chunks_5001)
  have answered: "\<forall>k < length (transcript_chunks ?t). \<exists>dict rest s.
          ?svc ([] @ take k (transcript_chunks ?t)) (transcript_chunks ?t ! k) = Inr (dict # rest)
          \<and> dict ''summary_text'' = Some s"
    by (simp add: fixed_summarizer_def)
  note res = C2_timeline_length_and_ordinals[of ?svc ?t 600 "[]"]
  from res answered obtain produced timeline where
    g: "get_reel_segments ?svc ?t 600 [] = (Inr (produced, timeline), [] @ transcript_chunks ?t)"
    and n: "length timeline = min 5 (length (transcript_chunks ?t))"
    and o: "map ordinal timeline = map int [1..<Suc (length timeline)]"
    by blast
  from n six have n5: "length timeline = 5" by simp
  with o have o5: "map ordinal timeline = [1, 2, 3, 4, 5]" by (simp add: upt_rec)
  from g n5 o5 have ex: "\<exists>produced timeline.
         fst (get_reel_segments ?svc ?t 600 []) = Inr (produced, timeline)
         \<and> length timeline = 5 \<and> map ordinal timeline = [1, 2, 3, 4, 5]"
    by auto
  from g get_reel_segments_six_windows n six ex show ?thesis by simp
qed

text \<open>
  Claim C3. With a total duration of 600 and at least five windows: five segments give
  the time step \<open>600 // 6 = 100\<close>; whenever the extraction returns, the start offsets
  are 100, 200, 300, 400, 500, every end offset is its start offset plus 30, and the
  returned string starts with the line \<open>1. 00:01:40 - 00:02:10: \<close> followed by the
  stripped summary of the first window. When the service answers each call of the loop,
  the extraction returns exactly such a timeline of five entries. The stripped summary is
  the summary without the whitespace at its two ends.
\<close>

theorem C3_default_duration_timeline:
  assumes "5 \<le> length (transcript_chunks t)"
  shows "(\<forall>hs :: string list. 5 \<le> length hs \<longrightarrow>
            total_segments hs = 5 \<and> py_floordiv 600 (total_segments hs + 1) = Inr 100)
    \<and> (get_reel_segments svc t 600 calls = (Inr (formatted, points), calls') \<longrightarrow>
          map start_offset points = [100, 200, 300, 400, 500]
          \<and> (\<forall>p \<in> set points. end_offset p = start_offset p + 30)
          \<and> (\<exists>d ds s. svc calls (transcript_chunks t ! 0) = Inr (d # ds)
                \<and> d ''summary_text'' = Some s
                \<and> formatted = ''1. 00:01:40 - 00:02:10: '' @ strip s @ [CHR 0x0A]
                                @ concat (map format_line (tl points))))
    \<and> ((\<forall>k < length (transcript_chunks t). \<exists>dict rest s.
           svc (calls @ take k (transcript_chunks t)) (transcript_chunks t ! k) = Inr (dict # rest)
           \<and> dict ''summary_text'' = Some s) \<longrightarrow>
        (\<exists>produced timeline.
           get_reel_segments svc t 600 calls = (Inr (produced, timeline), calls @ transcript_chunks t)
           \<and> map ordinal timeline = [1, 2, 3, 4, 5]
           \<and> map start_offset timeline = [100, 200, 300, 400, 500]
           \<and> map end_offset timeline = [130, 230, 330, 430, 530]
           \<and> (\<exists>d ds s. svc calls (transcript_chunks t ! 0) = Inr (d # ds)
                 \<and> d ''summary_text'' = Some s
                 \<and> produced = ''1. 00:01:40 - 00:02:10: '' @ strip s @ [CHR 0x0A]
                                @ concat (map format_line (tl timeline)))))
    \<and> (\<forall>s. \<exists>pre post. s = pre @ strip s @ post
           \<and> list_all py_isspace pre \<and> list_all py_isspace post
           \<and> (strip s \<noteq> [] \<longrightarrow> \<not> py_isspace (hd (strip s)) \<and> \<not> py_isspace (last (strip s))))"
proof -
  have a: "\<forall>hs :: string list. 5 \<le> length hs \<longrightarrow>
            total_segments hs = 5 \<and> py_floordiv 600 (total_segments hs + 1) = Inr 100"
    by (simp add: total_segments_def py_floordiv_def)
  have post: "map ordinal ps = [1, 2, 3, 4, 5]"
          "map start_offset ps = [100, 200, 300, 400, 500]"
          "map end_offset ps = [130, 230, 330, 430, 530]"
          "\<forall>p \<in> set ps. end_offset p = start_offset p + 30"
          "(\<exists>d ds s. svc calls (transcript_chunks t ! 0) = Inr (d # ds)
                \<and> d ''summary_text'' = Some s
                \<and> f = ''1. 00:01:40 - 00:02:10: '' @ strip s @ [CHR 0x0A]
                                @ concat (map format_line (tl ps)))"
    if g: "get_reel_segments svc t 600 calls = (Inr (f, ps), cs)" for f ps cs
  proof -
    from get_reel_segments_Inr[OF g] obtain hs where
      sm: "summarize_chunks svc (transcript_chunks t) [] calls = (Inr hs, cs)"
      and len: "length hs = length (transcript_chunks t)"
      and pts: "ps = map (\<lambda>j. \<lparr>ordinal = 1 + int j,
                  start_offset = 600 div (total_segments hs + 1) + int j * (600 div (total_segments hs + 1)),
                  end_offset = 600 div (total_segments hs + 1) + int j * (600 div (total_segments hs + 1)) + 30,
                  summary_text = strip (hs ! j)\<rparr>) [0..<min 5 (length hs)]"
      and fm: "f = concat (map format_line ps)"
      by blast
    have ts: "total_segments hs = 5" using assms len by (simp add: total_segments_def)
    have n: "min 5 (length hs) = 5" using assms len by simp
    have upt5: "[0..<5] = [0, 1, 2, 3, 4]" by (simp add: upt_rec)
    have pts5: "ps = map (\<lambda>j. \<lparr>ordinal = 1 + int j,
                  start_offset = 100 + int j * 100, end_offset = 100 + int j * 100 + 30,
                  summary_text = strip (hs ! j)\<rparr>) [0, 1, 2, 3, 4]"
      using pts unfolding ts n upt5 by simp
    have o: "map ordinal ps = [1, 2, 3, 4, 5]" unfolding pts5 by simp
    have b: "map start_offset ps = [100, 200, 300, 400, 500]" unfolding pts5 by simp
    have b': "map end_offset ps = [130, 230, 330, 430, 530]" unfolding pts5 by simp
    have c: "\<forall>p \<in> set ps. end_offset p = start_offset p + 30" unfolding pts5 by simp
    from assms obtain c0 cs0 where cs: "transcript_chunks t = c0 # cs0"
      by (cases "transcript_chunks t") auto
    from summarize_chunks_first[OF sm[unfolded cs]] obtain d ds s where
      svc: "svc calls c0 = Inr (d # ds)" "d ''summary_text'' = Some s" and h0: "hs ! 0 = s"
      by blast
    have "f = ''1. 00:01:40 - 00:02:10: '' @ strip s @ [CHR 0x0A]
                          @ concat (map format_line (tl ps))"
      unfolding fm unfolding pts5 using h0 by (simp add: format_line_first)
    with svc cs have e: "\<exists>d ds s. svc calls (transcript_chunks t ! 0) = Inr (d # ds)
          \<and> d ''summary_text'' = Some s
          \<and> f = ''1. 00:01:40 - 00:02:10: '' @ strip s @ [CHR 0x0A]
                          @ concat (map format_line (tl ps))"
      by auto
    from o show "map ordinal ps = [1, 2, 3, 4, 5]" .
    from b show "map start_offset ps = [100, 200, 300, 400, 500]" .
    from b' show "map end_offset ps = [130, 230, 330, 430, 530]" .
    from c show "\<forall>p \<in> set ps. end_offset p = start_offset p + 30" .
    from e show "(\<exists>d ds s. svc calls (transcript_chunks t ! 0) = Inr (d # ds)
                \<and> d ''summary_text'' = Some s
                \<and> f = ''1. 00:01:40 - 00:02:10: '' @ strip s @ [CHR 0x0A]
                                @ concat (map format_line (tl ps)))" .
  qed
  have produce: "\<exists>produced timeline.
           get_reel_segments svc t 600 calls = (Inr (produced, timeline), calls @ transcript_chunks t)
           \<and> map ordinal timeline = [1, 2, 3, 4, 5]
           \<and> map start_offset timeline = [100, 200, 300, 400, 500]
           \<and> map end_offset timeline = [130, 230, 330, 430, 530]
           \<and> (\<exists>d ds s. svc calls (transcript_chunks t ! 0) = Inr (d # ds)
                 \<and> d ''summary_text'' = Some s
                 \<and> produced = ''1. 00:01:40 - 00:02:10: '' @ strip s @ [CHR 0x0A]
                                @ concat (map format_line (tl timeline)))"
    if "\<forall>k < length (transcript_chunks t). \<exists>dict rest s.
           svc (calls @ take k (transcript_chunks t)) (transcript_chunks t ! k) = Inr (dict # rest)
           \<and> dict ''summary_text'' = Some s"
  proof -
    from get_reel_segments_produces[OF that, of 600] obtain f ps where
      g: "get_reel_segments svc t 600 calls = (Inr (f, ps), calls @ transcript_chunks t)" by blast
    show ?thesis
      by (intro exI[of _ f] exI[of _ ps] conjI g post(1)[OF g] post(2)[OF g] post(3)[OF g]
          post(5)[OF g])
  qed
  have shape: "\<forall>s. \<exists>pre post. s = pre @ strip s @ post
           \<and> list_all py_isspace pre \<and> list_all py_isspace post
           \<and> (strip s \<noteq> [] \<longrightarrow> \<not> py_isspace (hd (strip s)) \<and> \<not> py_isspace (last (strip s)))"
    using strip_shape by blast
  have old: "get_reel_segments svc t 600 calls = (Inr (formatted, points), calls') \<longrightarrow>
          map start_offset points = [100, 200, 300, 400, 500]
          \<and> (\<forall>p \<in> set points. end_offset p = start_offset p + 30)
          \<and> (\<exists>d ds s. svc calls (transcript_chunks t ! 0) = Inr (d # ds)
                \<and> d ''summary_text'' = Some s
                \<and> formatted = ''1. 00:01:40 - 00:02:10: '' @ strip s @ [CHR 0x0A]
                                @ concat (map format_line (tl points)))"
    by (intro impI conjI post(2) post(4) post(5))
  have new: "(\<forall>k < length (transcript_chunks t). \<exists>dict rest s.
           svc (calls @ take k (transcript_chunks t)) (transcript_chunks t ! k) = Inr (dict # rest)
           \<and> dict ''summary_text'' = Some s) \<longrightarrow>
        (\<exists>produced timeline.
           get_reel_segments svc t 600 calls = (Inr (produced, timeline), calls @ transcript_chunks t)
           \<and> map ordinal timeline = [1, 2, 3, 4, 5]
           \<and> map start_offset timeline = [100, 200, 300, 400, 500]
           \<and> map end_offset timeline = [130, 230, 330, 430, 530]
           \<and> (\<exists>d ds s. svc calls (transcript_chunks t ! 0) = Inr (d # ds)
                 \<and> d ''summary_text'' = Some s
                 \<and> produced = ''1. 00:01:40 - 00:02:10: '' @ strip s @ [CHR 0x0A]
                                @ concat (map format_line (tl timeline))))"
    using produce by blast
  show ?thesis by (intro conjI a old new shape)
qed

theorem C3_default_duration_timeline_witness:
  "5 \<le> length (transcript_chunks (replicate 5001 CHR ''a''))
   \<and> length (transcript_chunks (replicate 5001 CHR ''a'')) = 6
   \<and> (\<exists>produced timeline.
         get_reel_segments (fixed_summarizer ([CHR 0x09] @ '' hi there '' @ [CHR 0x0A]))
           (replicate 5001 CHR ''a'') 600 [] =
           (Inr (produced, timeline), transcript_chunks (replicate 5001 CHR ''a''))
         \<and> map start_offset timeline = [100, 200, 300, 400, 500]
         \<and> map end_offset timeline = [130, 230, 330, 430, 530]
         \<and> take 33 produced = ''1. 00:01:40 - 00:02:10: hi there'' @ [CHR 0x0A])
   \<and> total_segments [''a'', ''b'', ''c'', ''d'', ''e'', ''f''] = 5
   \<and> py_floordiv 600 (total_segments [''a'', ''b'', ''c'', ''d'', ''e'', ''f''] + 1) = Inr 100
   \<and> strip ([CHR 0x09] @ '' hi there '' @ [CHR 0x0A]) = ''hi there''"
proof -
  let ?sum = "[CHR 0x09] @ '' hi there '' @ [CHR 0x0A]"
  let ?svc = "fixed_summarizer ?sum"
  let ?t = "replicate 5001 CHR ''a''"
  have six: "length (transcript_chunks ?t) = 6" by (simp add: transcript_chunks_5001)
  then have five: "5 \<le> length (transcript_chunks ?t)" by simp
  have answered: "\<forall>k < length (transcript_chunks ?t). \<exists>dict rest s.
          ?svc ([] @ take k (transcript_chunks ?t)) (transcript_chunks ?t ! k) = Inr (dict # rest)
          \<and> dict ''summary_text'' = Some s"
    by (simp add: fixed_summarizer_def)
  note res = C3_default_duration_timeline[OF five, of ?svc "[]"]
  note made = mp[OF res[THEN conjunct2, THEN conjunct2, THEN conjunct1] answered]
  from made obtain produced timeline d ds s where
    g: "get_reel_segments ?svc ?t 600 [] = (Inr (produced, timeline), [] @ transcript_chunks ?t)"
    and st: "map start_offset timeline = [100, 200, 300, 400, 500]"
    and en: "map end_offset timeline = [130, 230, 330, 430, 530]"
    and first: "?svc [] (transcript_chunks ?t ! 0) = Inr (d # ds)" "d ''summary_text'' = Some s"
      "produced = ''1. 00:01:40 - 00:02:10: '' @ strip s @ [CHR 0x0A]
                                @ concat (map format_line (tl timeline))"
    by (elim exE conjE) (rule that; assumption)
  from first(1,2) have s: "s = ?sum" by (auto simp: fixed_summarizer_def)
  have "take 33 produced = ''1. 00:01:40 - 00:02:10: hi there'' @ [CHR 0x0A]"
    unfolding first(3) s strip_tab_newline by simp
  with g st en have ex: "\<exists>produced timeline.
         get_reel_segments ?svc ?t 600 [] = (Inr (produced, timeline), transcript_chunks ?t)
         \<and> map start_offset timeline = [100, 200, 300, 400, 500]
         \<and> map end_offset timeline = [130, 230, 330, 430, 530]
         \<and> take 33 produced = ''1. 00:01:40 - 00:02:10: hi there'' @ [CHR 0x0A]"
    by auto
  note every = res[THEN conjunct1]
  have step: "total_segments [''a'', ''b'', ''c'', ''d'', ''e'', ''f''] = 5
     \<and> py_floordiv 600 (total_segments [''a'', ''b'', ''c'', ''d'', ''e'', ''f''] + 1) = Inr 100"
    by (rule every[rule_format]) simp
  from five six ex step strip_tab_newline show ?thesis by (intro conjI) blast+
qed

text \<open>
  With a duration of 2 seconds and two windows the time step is \<open>2 // 3 = 0\<close> and both
  entries start at 0: the start offsets are not strictly increasing for every duration.
\<close>

theorem C4_counterexample:
  "get_reel_segments (fixed_summarizer '' hi '') (replicate 1001 CHR ''a'') 2 [] =
    (Inr (''1. 00:00:00 - 00:00:30: hi'' @ [CHR 0x0A] @ ''2. 00:00:00 - 00:00:30: hi'' @ [CHR 0x0A],
          [\<lparr>ordinal = 1, start_offset = 0, end_offset = 30, summary_text = ''hi''\<rparr>,
           \<lparr>ordinal = 2, start_offset = 0, end_offset = 30, summary_text = ''hi''\<rparr>]),
     [replicate 1000 CHR ''a'', ''a''])
   \<and> \<not> sorted_wrt (<) (map start_offset
          [\<lparr>ordinal = 1, start_offset = 0, end_offset = 30, summary_text = ''hi''\<rparr>,
           \<lparr>ordinal = 2, start_offset = 0, end_offset = 30, summary_text = ''hi''\<rparr>])"
  using get_reel_segments_short_duration by simp

text \<open>
  Claim C4, amended. When the extraction returns, entry \<open>k\<close> starts at
  \<open>time_step * (k + 1)\<close>, each start is the previous start plus \<open>time_step\<close>, and every
  end offset is its start offset plus 30. The start offsets are strictly increasing when
  the duration is at least \<open>total_segments + 1\<close>, that is when \<open>time_step\<close> is positive.
\<close>

theorem C4_amended:
  assumes "get_reel_segments svc t d calls = (Inr (formatted, points), calls')"
  shows "\<exists>time_step. py_floordiv d (min 5 (int (length (transcript_chunks t))) + 1) = Inr time_step
    \<and> (\<forall>k < length points. start_offset (points ! k) = time_step * (int k + 1)
                          \<and> end_offset (points ! k) = start_offset (points ! k) + 30)
    \<and> (\<forall>k. Suc k < length points \<longrightarrow>
           start_offset (points ! Suc k) = start_offset (points ! k) + time_step)
    \<and> (min 5 (int (length (transcript_chunks t))) + 1 \<le> d \<longrightarrow>
           0 < time_step \<and> sorted_wrt (<) (map start_offset points))"
proof -
  from get_reel_segments_Inr[OF assms] obtain hs where
    len: "length hs = length (transcript_chunks t)"
    and pts: "points = map (\<lambda>j. \<lparr>ordinal = 1 + int j,
                  start_offset = d div (total_segments hs + 1) + int j * (d div (total_segments hs + 1)),
                  end_offset = d div (total_segments hs + 1) + int j * (d div (total_segments hs + 1)) + 30,
                  summary_text = strip (hs ! j)\<rparr>) [0..<min 5 (length hs)]"
    by blast
  define m where "m = min 5 (int (length (transcript_chunks t))) + 1"
  define ts where "ts = d div m"
  have m: "total_segments hs + 1 = m" "1 \<le> m" by (simp_all add: total_segments_def len m_def)
  have lp: "length points = min 5 (length hs)" using pts by simp
  have nthp: "start_offset (points ! k) = ts * (int k + 1)"
             "end_offset (points ! k) = start_offset (points ! k) + 30" if "k < length points" for k
    using that unfolding pts m ts_def[symmetric] by (simp_all add: algebra_simps)
  have fd: "py_floordiv d m = Inr ts" using m by (simp add: py_floordiv_def ts_def)
  have step: "start_offset (points ! Suc k) = start_offset (points ! k) + ts" if "Suc k < length points" for k
    using nthp(1)[OF that] nthp(1)[of k] that by (simp add: algebra_simps)
  have incr: "0 < ts \<and> sorted_wrt (<) (map start_offset points)" if "m \<le> d"
  proof
    show pos: "0 < ts" using that m unfolding ts_def by (simp add: pos_imp_zdiv_pos_iff)
    show "sorted_wrt (<) (map start_offset points)"
      unfolding sorted_wrt_iff_nth_less
    proof (intro allI impI)
      fix i j assume ij: "i < j" "j < length (map start_offset points)"
      then have "start_offset (points ! i) = ts * (int i + 1)" "start_offset (points ! j) = ts * (int j + 1)"
        using nthp(1)[of i] nthp(1)[of j] by simp_all
      moreover have "ts * (int i + 1) < ts * (int j + 1)" using pos ij by simp
      ultimately show "map start_offset points ! i < map start_offset points ! j"
        using ij by simp
    qed
  qed
  show ?thesis
    unfolding m_def[symmetric]
    using fd nthp step incr by blast
qed

theorem C4_amended_witness:
  "get_reel_segments (fixed_summarizer '' hi '') (replicate 1001 CHR ''a'') 600 [] =
    (Inr (''1. 00:03:20 - 00:03:50: hi'' @ [CHR 0x0A] @ ''2. 00:06:40 - 00:07:10: hi'' @ [CHR 0x0A],
          [\<lparr>ordinal = 1, start_offset = 200, end_offset = 230, summary_text = ''hi''\<rparr>,
           \<lparr>ordinal = 2, start_offset = 400, end_offset = 430, summary_text = ''hi''\<rparr>]),
     [replicate 1000 CHR ''a'', ''a''])
   \<and> min 5 (int (length (transcript_chunks (replicate 1001 CHR ''a'')))) + 1 \<le> 600
   \<and> sorted_wrt (<) (map start_offset
          [\<lparr>ordinal = 1, start_offset = 200, end_offset = 230, summary_text = ''hi''\<rparr>,
           \<lparr>ordinal = 2, start_offset = 400, end_offset = 430, summary_text = ''hi''\<rparr>])"
proof -
  have le: "min 5 (int (length (transcript_chunks (replicate 1001 CHR ''a'')))) + 1 \<le> 600"
    by (simp add: transcript_chunks_1001)
  from C4_amended[OF get_reel_segments_two_windows] le
  have "sorted_wrt (<) (map start_offset
          [\<lparr>ordinal = 1, start_offset = 200, end_offset = 230, summary_text = ''hi''\<rparr>,
           \<lparr>ordinal = 2, start_offset = 400, end_offset = 430, summary_text = ''hi''\<rparr>])"
    by blast
  then show ?thesis using le get_reel_segments_two_windows by blast
qed

subsection \<open>Failures\<close>

text \<open>
  Claim C5. If the service raises on window \<open>k\<close> (called after the windows before it),
  the extraction ends with an exception and returns no timeline, and the call site
  shows the failure message with the exception and no text area of highlights.
\<close>

theorem C5_service_failure_fails_extraction:
  assumes "k < length (transcript_chunks t)"
    and "svc (calls @ take k (transcript_chunks t)) (transcript_chunks t ! k) = Inl msg"
  shows "\<exists>e calls'. get_reel_segments svc t d calls = (Inl e, calls')
           \<and> highlight_call_site svc t calls =
               ([StInfo ''Analyzing transcript for engaging reel segments...'',
                 StError ''Failed to extract highlight moments.'',
                 StTextExn e], calls')"
proof -
  from summarize_chunks_fails[of k "transcript_chunks t" svc calls msg "[]", OF assms] obtain e where
    "fst (summarize_chunks svc (transcript_chunks t) [] calls) = Inl e" by blast
  then obtain calls' where
    sm: "summarize_chunks svc (transcript_chunks t) [] calls = (Inl e, calls')"
    by (cases "summarize_chunks svc (transcript_chunks t) [] calls") simp
  then have "get_reel_segments svc t d calls = (Inl e, calls')" for d
    by (simp add: get_reel_segments_def)
  then show ?thesis by (simp add: highlight_call_site_def)
qed

theorem C5_service_failure_fails_extraction_witness:
  "(1::nat) < length (transcript_chunks (replicate 1001 CHR ''a''))
   \<and> failing_summarizer 1 '' hi '' ([] @ take 1 (transcript_chunks (replicate 1001 CHR ''a'')))
        (transcript_chunks (replicate 1001 CHR ''a'') ! 1) = Inl ''out of memory''
   \<and> highlight_call_site (failing_summarizer 1 '' hi '') (replicate 1001 CHR ''a'') [] =
       ([StInfo ''Analyzing transcript for engaging reel segments...'',
         StError ''Failed to extract highlight moments.'',
         StTextExn (ServiceError ''out of memory'')], [replicate 1000 CHR ''a'', ''a''])"
proof -
  have k: "(1::nat) < length (transcript_chunks (replicate 1001 CHR ''a''))"
    by (simp add: transcript_chunks_1001)
  have f: "failing_summarizer 1 '' hi '' ([] @ take 1 (transcript_chunks (replicate 1001 CHR ''a'')))
        (transcript_chunks (replicate 1001 CHR ''a'') ! 1) = Inl ''out of memory''"
    by (simp add: transcript_chunks_1001 failing_summarizer_def)
  from C5_service_failure_fails_extraction[of 1 "replicate 1001 CHR ''a''"
      "failing_summarizer 1 '' hi ''" "[]" "''out of memory''" 600, OF k f] obtain e calls' where
    g: "get_reel_segments (failing_summarizer 1 '' hi '') (replicate 1001 CHR ''a'') 600 [] = (Inl e, calls')"
    and h: "highlight_call_site (failing_summarizer 1 '' hi '') (replicate 1001 CHR ''a'') [] =
               ([StInfo ''Analyzing transcript for engaging reel segments...'',
                 StError ''Failed to extract highlight moments.'',
                 StTextExn e], calls')"
    by blast
  from g have "e = ServiceError ''out of memory''" "calls' = [replicate 1000 CHR ''a'', ''a'']"
    unfolding get_reel_segments_failing_service by simp_all
  with h k f show ?thesis by simp
qed

text \<open>
  Claim C10. For every transcript, duration, service and call history, the extraction
  does not raise \<open>ZeroDivisionError\<close>: the divisor \<open>total_segments + 1\<close> is at least 1
  for every list of highlights, so the division of line 53 returns a quotient.
\<close>

theorem C10_no_division_by_zero:
  "fst (get_reel_segments svc t d calls) \<noteq> Inl ZeroDivisionError
   \<and> 1 \<le> total_segments hs + 1
   \<and> py_floordiv d (total_segments hs + 1) = Inr (d div (total_segments hs + 1))"
proof -
  have pos: "1 \<le> total_segments hs' + 1" for hs' by (simp add: total_segments_def)
  have fd: "py_floordiv d (total_segments hs' + 1) = Inr (d div (total_segments hs' + 1))" for hs'
  proof -
    have "total_segments hs' + 1 \<noteq> 0" using pos[of hs'] by linarith
    then show ?thesis by (simp only: py_floordiv_def if_False)
  qed
  have "fst (get_reel_segments svc t d calls) \<noteq> Inl ZeroDivisionError"
    using summarize_chunks_no_zero_division[of svc "transcript_chunks t" "[]" calls]
    by (auto simp: get_reel_segments_def fd split: prod.splits sum.splits)
  with pos fd show ?thesis by blast
qed

section \<open>Properties of the handlers\<close>

subsection \<open>Transcription\<close>

lemma transcribe_audio_requests:
  "\<forall>req \<in> set (fst (snd (transcribe_audio w svc audio calls))).
      req = \<lparr>req_path = path_join TEMP_DIR (upload_name audio), req_language = ''en'', req_fp16 = False\<rparr>"
  by (simp add: transcribe_audio_def Let_def split: sum.splits prod.splits)

lemma transcribe_all_requests:
  "\<forall>req \<in> set (fst (snd (transcribe_all w svc audios calls))).
      req_language req = ''en'' \<and> req_fp16 req = False"
proof (induction audios arbitrary: calls)
  case Nil
  then show ?case by simp
next
  case (Cons a audios)
  obtain es1 reqs1 calls1 where one: "transcribe_audio w svc a calls = (es1, reqs1, calls1)"
    by (cases "transcribe_audio w svc a calls") auto
  obtain es2 reqs2 calls2 where rest: "transcribe_all w svc audios calls1 = (es2, reqs2, calls2)"
    by (cases "transcribe_all w svc audios calls1") auto
  have "\<forall>req \<in> set reqs1. req_language req = ''en'' \<and> req_fp16 req = False"
    using transcribe_audio_requests[of w svc a calls] one by auto
  moreover have "\<forall>req \<in> set reqs2. req_language req = ''en'' \<and> req_fp16 req = False"
    using Cons.IH[of calls1] rest by simp
  ultimately show ?case using one rest by auto
qed

text \<open>
  Claim C8. Every transcription request of the transcription section asks for the language
  \<open>en\<close>; and for an audio file whose detection succeeds, whatever language it detects,
  the one request sent is for the file with the language \<open>en\<close>.
\<close>

theorem C8_language_forced_to_english:
  "(\<forall>req \<in> set (fst (snd (transcription_section w svc uploaded_audios calls))).
       req_language req = ''en'')
   \<and> (detect w (upload_bytes audio) = Inr probs \<and> py_max_key probs = Inr detected_lang \<longrightarrow>
        fst (snd (transcribe_audio w svc audio calls)) =
          [\<lparr>req_path = path_join TEMP_DIR (upload_name audio), req_language = ''en'',
            req_fp16 = False\<rparr>])"
proof (intro conjI impI)
  show "\<forall>req \<in> set (fst (snd (transcription_section w svc uploaded_audios calls))).
       req_language req = ''en''"
    using transcribe_all_requests[of w svc uploaded_audios calls]
    by (auto simp: transcription_section_def split: prod.splits)
next
  assume "detect w (upload_bytes audio) = Inr probs \<and> py_max_key probs = Inr detected_lang"
  then show "fst (snd (transcribe_audio w svc audio calls)) =
          [\<lparr>req_path = path_join TEMP_DIR (upload_name audio), req_language = ''en'',
            req_fp16 = False\<rparr>]"
    by (simp add: transcribe_audio_def Let_def split: sum.splits prod.splits)
qed

theorem C8_language_forced_to_english_witness:
  "detect sample_whisper [1, 2, 3] = Inr [(''en'', 1), (''fr'', 9), (''de'', 9)]
   \<and> py_max_key [(''en'', 1::nat), (''fr'', 9), (''de'', 9)] = Inr ''fr''
   \<and> fst (snd (transcribe_audio sample_whisper (fixed_summarizer '' hi '')
                  \<lparr>upload_name = ''talk.mp3'', upload_bytes = [1, 2, 3]\<rparr> [])) =
        [\<lparr>req_path = ''temp/talk.mp3'', req_language = ''en'', req_fp16 = False\<rparr>]"
proof -
  have d: "detect sample_whisper (upload_bytes \<lparr>upload_name = ''talk.mp3'', upload_bytes = [1, 2, 3]\<rparr>)
             = Inr [(''en'', 1), (''fr'', 9), (''de'', 9)]"
    by (simp add: sample_whisper_def)
  have m: "py_max_key [(''en'', 1::nat), (''fr'', 9), (''de'', 9)] = Inr ''fr''"
    by (simp add: py_max_key_def)
  from C8_language_forced_to_english[of sample_whisper "fixed_summarizer '' hi ''" "[]" "[]"
      "\<lparr>upload_name = ''talk.mp3'', upload_bytes = [1, 2, 3]\<rparr>"
      "[(''en'', 1), (''fr'', 9), (''de'', 9)]" "''fr''"] d m
  have "fst (snd (transcribe_audio sample_whisper (fixed_summarizer '' hi '')
                  \<lparr>upload_name = ''talk.mp3'', upload_bytes = [1, 2, 3]\<rparr> [])) =
        [\<lparr>req_path = path_join TEMP_DIR (upload_name \<lparr>upload_name = ''talk.mp3'', upload_bytes = [1, 2, 3]\<rparr>),
          req_language = ''en'', req_fp16 = False\<rparr>]"
    by blast
  then show ?thesis using d m by (simp add: path_join_def TEMP_DIR_def)
qed

subsection \<open>The chunk handler\<close>

text \<open>
  Claim C6. When the vertical video does not exist, the chunk handler shows the error
  that asks to run the conversion first and stops the script; the segment service is not
  called and the workspace is left as it was, so no chunk file is produced.
\<close>

theorem C6_split_without_vertical_video:
  assumes "\<not> path_exists ws VERTICAL_VIDEO"
  shows "service_inputs (chunk_handler segment ws) = []
    \<and> workspace_after (chunk_handler segment ws) = ws
    \<and> stopped (chunk_handler segment ws)
    \<and> effects (chunk_handler segment ws) =
        [StInfo ''Splitting vertical video into 30-second chunks...'',
         StError (''Reel format video not found. Please run '' @
                  [CHR 0x27] @ ''Extract Audio & Convert Video to Reel Format'' @
                  [CHR 0x27] @ '' first.'')]"
  using assms by (simp add: chunk_handler_def chunk_missing_def)

theorem C6_split_without_vertical_video_witness:
  "\<not> path_exists (IsDir [File ''input.mp4'' False, File ''chunk_000.mp4'' False]) VERTICAL_VIDEO
   \<and> service_inputs (chunk_handler failing_segmenter
        (IsDir [File ''input.mp4'' False, File ''chunk_000.mp4'' False])) = []
   \<and> workspace_after (chunk_handler failing_segmenter
        (IsDir [File ''input.mp4'' False, File ''chunk_000.mp4'' False]))
       = IsDir [File ''input.mp4'' False, File ''chunk_000.mp4'' False]"
proof -
  have h: "\<not> path_exists (IsDir [File ''input.mp4'' False, File ''chunk_000.mp4'' False]) VERTICAL_VIDEO"
    by (simp add: path_exists_def VERTICAL_VIDEO_def)
  from C6_split_without_vertical_video[OF h, of failing_segmenter] h show ?thesis by blast
qed

lemma remove_chunks_filter:
  "remove_chunks entries = filter (\<lambda>e. \<not> (glob_chunk (node_name e) \<and> removable e)) entries"
  by (induction entries rule: remove_chunks.induct) (simp_all add: removable_def)

text \<open>
  A locked chunk file of an earlier run is still in the workspace when the service is
  called, and after the call has failed.
\<close>

theorem C7_counterexample:
  "chunk_handler failing_segmenter
     (IsDir [File ''vertical_output.mp4'' False, File ''chunk_000.mp4'' True, File ''chunk_001.mp4'' False]) =
     \<lparr>workspace_after = IsDir [File ''vertical_output.mp4'' False, File ''chunk_000.mp4'' True],
      effects = [StInfo ''Splitting vertical video into 30-second chunks...'',
                 StError ''Chunking failed:'',
                 StText ''ffmpeg error (see stderr output for detail)''],
      service_inputs = [[File ''vertical_output.mp4'' False, File ''chunk_000.mp4'' True]],
      stopped = False\<rparr>
   \<and> glob_chunks [File ''vertical_output.mp4'' False, File ''chunk_000.mp4'' True]
       = [''temp/chunk_000.mp4'']"
  by (simp add: chunk_handler_def failing_segmenter_def path_exists_def VERTICAL_VIDEO_def
      glob_chunk_def glob_chunks_def path_join_def TEMP_DIR_def Let_def)

text \<open>
  Claim C7, amended. A run that finds the vertical video calls the service once, on the
  workspace without the matching entries that \<open>os.remove\<close> can remove (files that are
  not locked); a matching entry that cannot be removed stays. When every matching entry
  is removable, no entry matches the pattern at the call; and when the call fails, the
  workspace is what the service left and the handler shows the failure.
\<close>

theorem C7_amended:
  assumes "path_exists (IsDir entries) VERTICAL_VIDEO"
  shows "service_inputs (chunk_handler segment (IsDir entries)) = [remove_chunks entries]
    \<and> remove_chunks entries = filter (\<lambda>e. \<not> (glob_chunk (node_name e) \<and> removable e)) entries
    \<and> ((\<forall>e \<in> set entries. glob_chunk (node_name e) \<longrightarrow> removable e) \<longrightarrow>
          glob_chunks (remove_chunks entries) = [])
    \<and> (\<forall>err left. segment (remove_chunks entries) = (Inl err, left) \<longrightarrow>
          workspace_after (chunk_handler segment (IsDir entries)) = IsDir left
          \<and> effects (chunk_handler segment (IsDir entries)) =
              [StInfo ''Splitting vertical video into 30-second chunks...'',
               StError ''Chunking failed:'', StText (ffmpeg_error_text err)])"
proof -
  have a: "service_inputs (chunk_handler segment (IsDir entries)) = [remove_chunks entries]"
    using assms by (simp add: chunk_handler_def Let_def split: prod.splits sum.splits)
  have c: "glob_chunks (remove_chunks entries) = []"
    if "\<forall>e \<in> set entries. glob_chunk (node_name e) \<longrightarrow> removable e"
    using that by (auto simp: glob_chunks_def remove_chunks_filter filter_empty_conv)
  have d: "workspace_after (chunk_handler segment (IsDir entries)) = IsDir left
          \<and> effects (chunk_handler segment (IsDir entries)) =
              [StInfo ''Splitting vertical video into 30-second chunks...'',
               StError ''Chunking failed:'', StText (ffmpeg_error_text err)]"
    if "segment (remove_chunks entries) = (Inl err, left)" for err left
    using assms that by (simp add: chunk_handler_def)
  from a c d remove_chunks_filter[of entries] show ?thesis by blast
qed

theorem C7_amended_witness:
  "path_exists (IsDir [File ''vertical_output.mp4'' False, File ''chunk_000.mp4'' False,
                      File ''chunk_001.mp4'' False]) VERTICAL_VIDEO
   \<and> service_inputs (chunk_handler failing_segmenter
        (IsDir [File ''vertical_output.mp4'' False, File ''chunk_000.mp4'' False,
                File ''chunk_001.mp4'' False])) = [[File ''vertical_output.mp4'' False]]
   \<and> glob_chunks [File ''vertical_output.mp4'' False] = []
   \<and> workspace_after (chunk_handler failing_segmenter
        (IsDir [File ''vertical_output.mp4'' False, File ''chunk_000.mp4'' False,
                File ''chunk_001.mp4'' False])) = IsDir [File ''vertical_output.mp4'' False]"
proof -
  let ?es = "[File ''vertical_output.mp4'' False, File ''chunk_000.mp4'' False,
              File ''chunk_001.mp4'' False]"
  have h: "path_exists (IsDir ?es) VERTICAL_VIDEO"
    by (simp add: path_exists_def VERTICAL_VIDEO_def)
  have rc: "remove_chunks ?es = [File ''vertical_output.mp4'' False]"
    by (simp add: glob_chunk_def)
  have ok: "\<forall>e \<in> set ?es. glob_chunk (node_name e) \<longrightarrow> removable e"
    by (simp add: removable_def glob_chunk_def)
  have fl: "failing_segmenter (remove_chunks ?es) = (Inl (FfmpegError None), [File ''vertical_output.mp4'' False])"
    by (simp only: failing_segmenter_def rc)
  note res = C7_amended[OF h, of failing_segmenter]
  from res have "service_inputs (chunk_handler failing_segmenter (IsDir ?es)) = [remove_chunks ?es]"
    by blast
  moreover from res ok have "glob_chunks (remove_chunks ?es) = []" by blast
  moreover from res fl have "workspace_after (chunk_handler failing_segmenter (IsDir ?es))
      = IsDir [File ''vertical_output.mp4'' False]" by blast
  ultimately show ?thesis using h rc by simp
qed

subsection \<open>Cleaning the workspace\<close>

lemma dir_files_simps [simp]:
  "dir_files [] = []"
  "dir_files (e # es) = tree_files e @ dir_files es"
  by (simp_all add: dir_files_def)

lemma tree_files_Dir [simp]: "tree_files (Dir n entries) = dir_files entries"
  by (simp add: dir_files_def)

declare tree_files.simps(2) [simp del]

lemma walk_tree_Dir:
  "walk_tree (Dir n entries) =
     (Dir n (rmdir_dirs (fst (remove_files (map (\<lambda>e. fst (walk_tree e)) entries)))),
      concat (map (\<lambda>e. snd (walk_tree e)) entries)
        @ snd (remove_files (map (\<lambda>e. fst (walk_tree e)) entries)))"
  by (simp add: Let_def split_beta comp_def)

lemma walked_entries:
  assumes "\<And>e. e \<in> set entries \<Longrightarrow> walked e (walk_tree e)"
  shows "dir_files (rmdir_dirs (fst (remove_files (map (\<lambda>e. fst (walk_tree e)) entries))))
           = filter snd (dir_files entries)
         \<and> mset (concat (map (\<lambda>e. snd (walk_tree e)) entries)
                 @ snd (remove_files (map (\<lambda>e. fst (walk_tree e)) entries)))
           = mset (map (\<lambda>f. skipped_warning (fst f)) (filter snd (dir_files entries)))
         \<and> list_all nonempty_dirs
             (rmdir_dirs (fst (remove_files (map (\<lambda>e. fst (walk_tree e)) entries))))"
  using assms
proof (induction entries)
  case Nil
  then show ?case by simp
next
  case (Cons e es)
  have IH: "dir_files (rmdir_dirs (fst (remove_files (map (\<lambda>e. fst (walk_tree e)) es))))
           = filter snd (dir_files es)"
      "mset (concat (map (\<lambda>e. snd (walk_tree e)) es)
                 @ snd (remove_files (map (\<lambda>e. fst (walk_tree e)) es)))
           = mset (map (\<lambda>f. skipped_warning (fst f)) (filter snd (dir_files es)))"
      "list_all nonempty_dirs
             (rmdir_dirs (fst (remove_files (map (\<lambda>e. fst (walk_tree e)) es))))"
    using Cons.IH Cons.prems by simp_all
  have w: "walked e (walk_tree e)" using Cons.prems by simp
  obtain r ws where r: "walk_tree e = (r, ws)" by (cases "walk_tree e")
  obtain kept warns where k: "remove_files (map (\<lambda>e. fst (walk_tree e)) es) = (kept, warns)"
    by (cases "remove_files (map (\<lambda>e. fst (walk_tree e)) es)")
  show ?case
  proof (cases r)
    case (File n locked)
    with w r have e: "e = File n locked" "ws = []" by (simp_all add: walked_def)
    show ?thesis using IH unfolding e k by (cases locked) (simp_all add: k)
  next
    case (Dir n left)
    with w r have f: "dir_files left = filter snd (tree_files e)"
      and m: "mset ws = mset (map (\<lambda>f. skipped_warning (fst f)) (filter snd (tree_files e)))"
      and ne: "list_all nonempty_dirs left"
      by (simp_all add: walked_def)
    show ?thesis
    proof (cases left)
      case Nil
      with f m IH show ?thesis using r Dir k by (simp add: k)
    next
      case (Cons x xs)
      with f m ne IH show ?thesis using r Dir k by (simp add: k)
    qed
  qed
qed

lemma walk_tree_walked: "walked e (walk_tree e)"
proof (induction e rule: walk_tree.induct)
  case (1 n locked)
  show ?case by (simp add: walked_def)
next
  case (2 n entries)
  then have "\<And>e. e \<in> set entries \<Longrightarrow> walked e (walk_tree e)" by simp
  from walked_entries[OF this] show ?case
    unfolding walk_tree_Dir by (simp add: walked_def)
qed

lemma mset_single_list: "mset xs = {#x#} \<Longrightarrow> xs = [x]"
  by (cases xs) (auto simp: add_eq_conv_ex)

text \<open>
  The handler on a path that is not a directory: a file in its place makes
  \<open>os.makedirs\<close> fail, which is the one error the handler shows; a missing path is
  created. On a directory it always ends with the success message, keeps exactly the
  locked files and warns once for each.
\<close>

lemma clean_handler_not_a_directory:
  "clean_handler IsFile = (IsFile, [StErrorExn ''Failed to clean temp files: '' FileExistsError])"
  "clean_handler Missing = (IsDir [], [StSuccess ''Temporary files cleaned.''])"
  by (simp_all add: clean_handler_def safe_delete_dir_def os_makedirs_def)

lemma clean_handler_directory:
  "\<exists>left warnings. clean_handler (IsDir entries) =
      (IsDir left, warnings @ [StSuccess ''Temporary files cleaned.''])
    \<and> dir_files left = filter snd (dir_files entries)
    \<and> mset warnings = mset (map (\<lambda>f. skipped_warning (fst f)) (filter snd (dir_files entries)))"
proof -
  obtain r ws where r: "walk_tree (Dir TEMP_DIR entries) = (r, ws)"
    by (cases "walk_tree (Dir TEMP_DIR entries)")
  from r[unfolded walk_tree_Dir] obtain left where l: "r = Dir TEMP_DIR left"
    by blast
  have "walked (Dir TEMP_DIR entries) (r, ws)"
    using walk_tree_walked[of "Dir TEMP_DIR entries"] r by simp
  then have f: "dir_files left = filter snd (dir_files entries)"
    and m: "mset ws = mset (map (\<lambda>f. skipped_warning (fst f)) (filter snd (dir_files entries)))"
    using l by (simp_all add: walked_def)
  show ?thesis
  proof (cases "left = []")
    case True
    then have "clean_handler (IsDir entries) = (IsDir [], ws @ [StSuccess ''Temporary files cleaned.''])"
      using r l by (simp add: clean_handler_def safe_delete_dir_def os_makedirs_def)
    with f m True show ?thesis by auto
  next
    case False
    then have "clean_handler (IsDir entries) = (IsDir left, ws @ [StSuccess ''Temporary files cleaned.''])"
      using r l by (simp add: clean_handler_def safe_delete_dir_def os_makedirs_def)
    with f m show ?thesis by blast
  qed
qed

text \<open>
  A workspace with one locked file inside a sub-directory: the handler succeeds with one
  warning, and the workspace still holds the sub-directory with the locked file.
\<close>

theorem C9_counterexample:
  "clean_handler (IsDir [File ''audio.wav'' False,
                         Dir ''cache'' [File ''chunk_000.mp4'' True, File ''notes.txt'' False],
                         Dir ''old'' []]) =
     (IsDir [Dir ''cache'' [File ''chunk_000.mp4'' True]],
      [skipped_warning ''chunk_000.mp4'', StSuccess ''Temporary files cleaned.''])
   \<and> IsDir [Dir ''cache'' [File ''chunk_000.mp4'' True]] \<noteq> IsDir []"
  by (simp add: clean_handler_def safe_delete_dir_def os_makedirs_def)

text \<open>
  The bottom-up pass leaves of every entry exactly its pruned tree, so every locked file
  keeps its path.
\<close>

lemma loop_result_pruned:
  assumes "\<And>e. e \<in> set entries \<Longrightarrow> fst (walk_tree e) = pruned e"
  shows "rmdir_dirs (fst (remove_files (map (\<lambda>e. fst (walk_tree e)) entries)))
           = map pruned (filter keeps_locked entries)"
  using assms
proof (induction entries)
  case Nil
  then show ?case by simp
next
  case (Cons e es)
  have IH: "rmdir_dirs (fst (remove_files (map (\<lambda>e. fst (walk_tree e)) es)))
           = map pruned (filter keeps_locked es)"
    using Cons by simp
  have w: "fst (walk_tree e) = pruned e" using Cons.prems by simp
  obtain kept warns where k: "remove_files (map (\<lambda>e. fst (walk_tree e)) es) = (kept, warns)"
    by (cases "remove_files (map (\<lambda>e. fst (walk_tree e)) es)")
  show ?case
  proof (cases e)
    case (File n locked)
    then show ?thesis using IH k by (cases locked) simp_all
  next
    case (Dir n sub)
    show ?thesis
    proof (cases "filter keeps_locked sub")
      case Nil
      then have "\<not> list_ex keeps_locked sub" by (simp add: list_ex_iff filter_empty_conv)
      with Nil show ?thesis using IH k w Dir by simp
    next
      case (Cons x xs)
      then have "list_ex keeps_locked sub"
        by (metis filter_empty_conv list.distinct(1) list_ex_iff)
      with Cons show ?thesis using IH k w Dir by simp
    qed
  qed
qed

lemma walk_tree_pruned: "fst (walk_tree e) = pruned e"
proof (induction e rule: walk_tree.induct)
  case (1 n locked)
  show ?case by simp
next
  case (2 n entries)
  then have "\<And>e. e \<in> set entries \<Longrightarrow> fst (walk_tree e) = pruned e" by simp
  from loop_result_pruned[OF this] show ?case
    unfolding walk_tree_Dir by simp
qed

lemma keeps_locked_paths:
  "keeps_locked e \<longleftrightarrow> filter (\<lambda>f. snd (snd f)) (tree_paths p e) \<noteq> []"
proof (induction e arbitrary: p rule: keeps_locked.induct)
  case (1 n locked)
  show ?case by simp
next
  case (2 n entries)
  then show ?case by (auto simp: list_ex_iff filter_empty_conv)
qed

lemma pruned_paths:
  "concat (map (tree_paths p) (map pruned (filter keeps_locked [e])))
     = filter (\<lambda>f. snd (snd f)) (tree_paths p e)"
proof (induction e arbitrary: p rule: pruned.induct)
  case (1 n locked)
  show ?case by simp
next
  case (2 n entries)
  have each: "concat (map (tree_paths q) (map pruned (filter keeps_locked es)))
     = filter (\<lambda>f. snd (snd f)) (concat (map (tree_paths q) es))"
    if "set es \<subseteq> set entries" for q es
    using that
  proof (induction es)
    case Nil
    then show ?case by simp
  next
    case (Cons x xs)
    show ?case
    proof (cases "keeps_locked x")
      case True
      with Cons.prems have "x \<in> set (filter keeps_locked entries)" by simp
      from "2.IH"[OF this, of q] Cons True show ?thesis by simp
    next
      case False
      then have "filter (\<lambda>f. snd (snd f)) (tree_paths q x) = []"
        using keeps_locked_paths[of x q] by simp
      with Cons False show ?thesis by simp
    qed
  qed
  show ?case
  proof (cases "keeps_locked (Dir n entries)")
    case True
    then show ?thesis using each[of entries "p @ [n]"] by simp
  next
    case False
    then show ?thesis using keeps_locked_paths[of "Dir n entries" p] by simp
  qed
qed

lemma dir_paths_pruned:
  "dir_paths (map pruned (filter keeps_locked entries)) = filter (\<lambda>f. snd (snd f)) (dir_paths entries)"
proof (induction entries)
  case Nil
  then show ?case by (simp add: dir_paths_def)
next
  case (Cons e es)
  from pruned_paths[of "[]" e] Cons show ?case
    by (cases "keeps_locked e") (simp_all add: dir_paths_def)
qed

lemma tree_paths_files: "map snd (tree_paths p e) = tree_files e"
proof (induction e arbitrary: p rule: tree_files.induct)
  case (1 n locked)
  show ?case by simp
next
  case (2 n entries)
  have "map snd (concat (map (tree_paths q) es)) = dir_files es" if "set es \<subseteq> set entries" for es q
    using that by (induction es) (simp_all add: 2)
  then show ?case by (simp del: map_concat)
qed

lemma dir_paths_files: "map snd (dir_paths entries) = dir_files entries"
  by (induction entries) (simp_all add: dir_paths_def tree_paths_files)

text \<open>
  Claim C9, amended. On a workspace directory whose tree holds exactly one locked file,
  the clean handler raises nothing, issues exactly one warning, for that file, and then
  the success message; the workspace is left as a directory that is not empty: it is the
  pruned tree, which holds the locked file and nothing else, at the path it had, inside
  the directories that lead to it.
\<close>

theorem C9_amended:
  assumes "filter snd (dir_files entries) = [(n, True)]"
  shows "\<exists>left. clean_handler (IsDir entries) =
             (IsDir left, [skipped_warning n, StSuccess ''Temporary files cleaned.''])
           \<and> left \<noteq> []
           \<and> dir_files left = [(n, True)]
           \<and> list_all nonempty_dirs left
           \<and> left = map pruned (filter keeps_locked entries)
           \<and> dir_paths left = filter (\<lambda>f. snd (snd f)) (dir_paths entries)
           \<and> (\<exists>p. dir_paths left = [(p, n, True)])"
proof -
  obtain r ws where r: "walk_tree (Dir TEMP_DIR entries) = (r, ws)"
    by (cases "walk_tree (Dir TEMP_DIR entries)")
  from r[unfolded walk_tree_Dir] obtain left where l: "r = Dir TEMP_DIR left"
    by blast
  have "walked (Dir TEMP_DIR entries) (r, ws)"
    using walk_tree_walked[of "Dir TEMP_DIR entries"] r by simp
  then have f: "dir_files left = [(n, True)]"
    and m: "mset ws = {#skipped_warning n#}"
    and ne: "list_all nonempty_dirs left"
    using l assms by (simp_all add: walked_def)
  from f have nonempty: "left \<noteq> []" by auto
  from m have ws: "ws = [skipped_warning n]" by (rule mset_single_list)
  have "pruned (Dir TEMP_DIR entries) = Dir TEMP_DIR left"
    using walk_tree_pruned[of "Dir TEMP_DIR entries"] r l by simp
  then have shape: "left = map pruned (filter keeps_locked entries)" by simp
  have paths: "dir_paths left = filter (\<lambda>f. snd (snd f)) (dir_paths entries)"
    unfolding shape by (rule dir_paths_pruned)
  have "map snd (dir_paths left) = [(n, True)]" using f by (simp add: dir_paths_files)
  then have one: "\<exists>p. dir_paths left = [(p, n, True)]" by auto
  have "clean_handler (IsDir entries) =
          (IsDir left, [skipped_warning n, StSuccess ''Temporary files cleaned.''])"
    using r l nonempty ws
    by (simp add: clean_handler_def safe_delete_dir_def os_makedirs_def)
  with nonempty f ne shape paths one show ?thesis by blast
qed

theorem C9_amended_witness:
  "filter snd (dir_files [File ''audio.wav'' False,
                         Dir ''cache'' [File ''chunk_000.mp4'' True, File ''notes.txt'' False],
                         Dir ''old'' []]) = [(''chunk_000.mp4'', True)]
   \<and> clean_handler (IsDir [File ''audio.wav'' False,
                         Dir ''cache'' [File ''chunk_000.mp4'' True, File ''notes.txt'' False],
                         Dir ''old'' []]) =
       (IsDir [Dir ''cache'' [File ''chunk_000.mp4'' True]],
        [skipped_warning ''chunk_000.mp4'', StSuccess ''Temporary files cleaned.''])
   \<and> dir_paths [Dir ''cache'' [File ''chunk_000.mp4'' True]] = [([''cache''], ''chunk_000.mp4'', True)]
   \<and> filter (\<lambda>f. snd (snd f)) (dir_paths [File ''audio.wav'' False,
                         Dir ''cache'' [File ''chunk_000.mp4'' True, File ''notes.txt'' False],
                         Dir ''old'' []]) = [([''cache''], ''chunk_000.mp4'', True)]"
proof -
  let ?es = "[File ''audio.wav'' False,
              Dir ''cache'' [File ''chunk_000.mp4'' True, File ''notes.txt'' False],
              Dir ''old'' []]"
  have h: "filter snd (dir_files ?es) = [(''chunk_000.mp4'', True)]"
    by simp
  have p: "map pruned (filter keeps_locked ?es) = [Dir ''cache'' [File ''chunk_000.mp4'' True]]"
    by simp
  have q: "filter (\<lambda>f. snd (snd f)) (dir_paths ?es) = [([''cache''], ''chunk_000.mp4'', True)]"
    by (simp add: dir_paths_def)
  from C9_amended[OF h] obtain left where
    c: "clean_handler (IsDir ?es) =
       (IsDir left, [skipped_warning ''chunk_000.mp4'', StSuccess ''Temporary files cleaned.''])"
    and s: "left = map pruned (filter keeps_locked ?es)"
    and d: "dir_paths left = filter (\<lambda>f. snd (snd f)) (dir_paths ?es)"
    by (elim exE conjE) (rule that; assumption)
  from s p have left: "left = [Dir ''cache'' [File ''chunk_000.mp4'' True]]" by (simp only:)
  from c d h q show ?thesis unfolding left by (simp only: simp_thms)
qed

end
